theory Spec2Isabelle
  imports Main "HOL-Library.Word"
begin

unbundle bit_operations_syntax

section \<open>Types declared outside \<open>selfplay/multigame.cc\<close>\<close>

text \<open>
  Modelled from the spec: the enumeration \<open>GameResult\<close>, declared outside this file, with the
  four values of the spec's data model. The code compares against \<open>UNDECIDED\<close> and assigns
  the other three.
\<close>

datatype GameResult = UNDECIDED | WHITE_WON | BLACK_WON | DRAW

text \<open>
  Modelled from the spec: the enumeration \<open>WDLScore\<close>, declared outside this file, the
  win/draw/loss classification from the mover's side with the two marginal classes (cursed
  win, blessed loss). The code compares against \<open>WDL_WIN\<close> and \<open>WDL_LOSS\<close> only.
\<close>

datatype WDLScore = WDL_LOSS | WDL_BLESSED_LOSS | WDL_DRAW | WDL_CURSED_WIN | WDL_WIN

text \<open>
  Modelled from the spec: the enumeration \<open>ProbeState\<close>, declared outside this file, with the
  spec's three statuses: failed, exact and approximate (still usable). The code compares
  against \<open>FAIL\<close> only.
\<close>

datatype ProbeState = FAIL | OK | OK_APPROXIMATE

subsection \<open>Single-precision scores\<close>

text \<open>
  \<open>MakeBestMove\<close> compares \<open>float\<close> values with \<open>>=\<close>, starting from
  \<open>std::numeric_limits<float>::lowest()\<close>. A \<open>float\<close> is modelled by its 32 bits (sign,
  8 exponent bits, 23 fraction bits). Only the comparison is needed, and it is exact:
  a value with all exponent bits set and a non-zero fraction is a NaN and compares false
  with everything; all other values are ordered by sign and magnitude bits, the two zeros
  being equal. \<open>lowest()\<close> is the most negative finite value, \<open>0xFF7FFFFF\<close>.
\<close>

type_synonym float32 = "32 word"

definition float_magnitude :: "float32 \<Rightarrow> nat" where
  "float_magnitude w = unat (w AND 0x7FFFFFFF)"

definition float_isnan :: "float32 \<Rightarrow> bool" where
  "float_isnan w = (0x7F800000 < float_magnitude w)"

definition float_key :: "float32 \<Rightarrow> int" where
  "float_key w = (if bit w 31 then - int (float_magnitude w) else int (float_magnitude w))"

definition float_ge :: "float32 \<Rightarrow> float32 \<Rightarrow> bool" where
  "float_ge a b = (\<not> float_isnan a \<and> \<not> float_isnan b \<and> float_key b \<le> float_key a)"

definition float_lowest :: float32 where
  "float_lowest = 0xFF7FFFFF"

subsection \<open>Game trees and the rules layer\<close>

text \<open>
  Modelled from the spec: the class \<open>NodeTree\<close>, declared outside this file, holds one
  game's position history and its current head node. Of the head node only the edge list,
  the move candidates, is read here.
\<close>

record ('h, 'm) NodeTree =
  history :: 'h
  head_edges :: "'m list"

text \<open>
  Modelled from the spec: \<open>Node::CreateEdges\<close>, which is not in this file, materializes the
  given legal moves, in order, as the move candidates of the current node and touches
  nothing else.
\<close>

definition CreateEdges :: "('h, 'm) NodeTree \<Rightarrow> 'm list \<Rightarrow> ('h, 'm) NodeTree" where
  "CreateEdges tree legal_moves = tree\<lparr>head_edges := legal_moves\<rparr>"

text \<open>
  The operations of the position, move and encoding layers are not in this file and are
  taken as parameters. Each field stands for the call of the same name; those made on a
  position or board take the position history they are reached from.
  \<open>GetPlyCount\<close> is the number of half-moves of the head position, a natural number, and the
  source's \<open>GetPlyCount() % 2 == 1\<close> is \<open>mod 2 = 1\<close> on it. \<open>EncodePositionForNN\<close> returns the
  input planes and the transform. \<open>GetMove e flip\<close> is \<open>edge.GetMove(flip)\<close>, with
  \<open>edge.GetMove()\<close> being \<open>GetMove e False\<close>, and \<open>default_Move\<close> is the default-constructed
  \<open>Move\<close>. \<open>ResetToPosition\<close> gives the fresh tree reset to a starting position.
\<close>

record ('h, 'm, 'pl) rules =
  ComputeGameResult :: "'h \<Rightarrow> GameResult"
  no_legal_castle :: "'h \<Rightarrow> bool"
  piece_count :: "'h \<Rightarrow> nat"
  GetPlyCount :: "'h \<Rightarrow> nat"
  IsBlackToMove :: "'h \<Rightarrow> bool"
  GenerateLegalMoves :: "'h \<Rightarrow> 'm list"
  EncodePositionForNN :: "nat \<Rightarrow> 'h \<Rightarrow> 'pl \<times> int"
  as_nn_index :: "'m \<Rightarrow> int \<Rightarrow> nat"
  GetMove :: "'m \<Rightarrow> bool \<Rightarrow> 'm"
  default_Move :: 'm
  MakeMove :: "('h, 'm) NodeTree \<Rightarrow> 'm \<Rightarrow> ('h, 'm) NodeTree"
  ResetToPosition :: "string \<Rightarrow> ('h, 'm) NodeTree"

text \<open>
  The tablebase, too, is a parameter: its maximal cardinality and its probe, which returns
  the classification and the probe status for the last position of a history.
\<close>

record 'h SyzygyTablebase =
  max_cardinality :: nat
  probe_wdl :: "'h \<Rightarrow> WDLScore \<times> ProbeState"

text \<open>
  Of the player options the code uses the network: the input format it declares, and the
  computation opened on it, which maps the batch of encoded inputs to the policy value of
  every batch slot and move index.
\<close>

record 'pl PlayerOptions =
  network :: "'pl list \<Rightarrow> nat \<Rightarrow> nat \<Rightarrow> float32"
  capabilities_input_format :: nat

record 'm Opening =
  start_fen :: string
  moves :: "'m list"

section \<open>The calls observed\<close>

text \<open>
  Every call of the probe and of the evaluator is recorded, in program order, with the
  index of the session it is made for. A \<open>Gather\<close> call records the batch slot it fills
  (the size of the transform log before the call) and \<open>MakeBestMove\<close> the slot it reads
  (the cursor \<open>comp_idx\<close> at the call).
\<close>

datatype event =
  EvProbe nat
  | EvReset nat
  | EvGather nat nat
  | EvRun
  | EvMakeBestMove nat nat

section \<open>PolicyEvaluator\<close>

text \<open>
  The computation \<open>comp\<close> is the network it was opened on, the inputs added so far and,
  once \<open>ComputeBlocking\<close> has run, the outputs.
\<close>

record 'pl PolicyEvaluator =
  comp_network :: "'pl list \<Rightarrow> nat \<Rightarrow> nat \<Rightarrow> float32"
  comp_inputs :: "'pl list"
  comp_outputs :: "(nat \<Rightarrow> nat \<Rightarrow> float32) option"
  input_format :: nat
  comp_idx :: nat
  transforms :: "int list"

text \<open>\<open>Reset\<close> assigns every member, so the evaluator after it depends on the player only.\<close>

definition Reset :: "'pl PlayerOptions \<Rightarrow> 'pl PolicyEvaluator" where
  "Reset player =
     \<lparr>comp_network = network player, comp_inputs = [], comp_outputs = None,
      input_format = capabilities_input_format player, comp_idx = 0, transforms = []\<rparr>"

definition Gather ::
  "('h, 'm, 'pl) rules \<Rightarrow> 'pl PolicyEvaluator \<Rightarrow> ('h, 'm) NodeTree \<Rightarrow> 'pl PolicyEvaluator" where
  "Gather env pe tree =
     (let (planes, transform) = EncodePositionForNN env (input_format pe) (history tree)
      in pe\<lparr>transforms := transforms pe @ [transform],
            comp_inputs := comp_inputs pe @ [planes]\<rparr>)"

definition Run :: "'pl PolicyEvaluator \<Rightarrow> 'pl PolicyEvaluator" where
  "Run pe = pe\<lparr>comp_outputs := Some (comp_network pe (comp_inputs pe))\<rparr>"

text \<open>
  Reading \<open>transforms[comp_idx]\<close> past the end of the vector, or a policy value before the
  batch was computed, is undefined in the source: the model returns \<open>None\<close> there.
\<close>

definition GetPVal :: "'pl PolicyEvaluator \<Rightarrow> nat \<Rightarrow> nat \<Rightarrow> float32 option" where
  "GetPVal pe sample move_id = map_option (\<lambda>out. out sample move_id) (comp_outputs pe)"

definition edge_score ::
  "('h, 'm, 'pl) rules \<Rightarrow> 'pl PolicyEvaluator \<Rightarrow> 'm \<Rightarrow> float32 option" where
  "edge_score env pe edge =
     (if comp_idx pe < length (transforms pe)
      then GetPVal pe (comp_idx pe)
             (as_nn_index env (GetMove env edge False) (transforms pe ! comp_idx pe))
      else None)"

text \<open>The loop over the edges of the current head, on the pair \<open>(max_p, best)\<close>.\<close>

fun best_loop ::
  "('h, 'm, 'pl) rules \<Rightarrow> 'pl PolicyEvaluator \<Rightarrow> 'h \<Rightarrow> 'm list \<Rightarrow> float32 \<times> 'm \<Rightarrow>
   (float32 \<times> 'm) option" where
  "best_loop env pe h [] acc = Some acc"
| "best_loop env pe h (edge # edges) (max_p, best) =
     (case edge_score env pe edge of
        None \<Rightarrow> None
      | Some p \<Rightarrow>
          if float_ge p max_p
          then best_loop env pe h edges (p, GetMove env edge (IsBlackToMove env h))
          else best_loop env pe h edges (max_p, best))"

definition MakeBestMove ::
  "('h, 'm, 'pl) rules \<Rightarrow> 'pl PolicyEvaluator \<Rightarrow> ('h, 'm) NodeTree \<Rightarrow>
   ('pl PolicyEvaluator \<times> ('h, 'm) NodeTree) option" where
  "MakeBestMove env pe tree =
     (case best_loop env pe (history tree) (head_edges tree) (float_lowest, default_Move env) of
        None \<Rightarrow> None
      | Some (max_p, best) \<Rightarrow> Some (pe\<lparr>comp_idx := comp_idx pe + 1\<rparr>, MakeMove env tree best))"

section \<open>MultiSelfPlayGames\<close>

text \<open>
  The members \<open>options_\<close>, \<open>syzygy_tb_\<close>, \<open>trees_\<close>, \<open>results_\<close> and \<open>abort_\<close>,
  written without the trailing underscore.
\<close>

record ('h, 'm, 'pl) MultiSelfPlayGames =
  options :: "'pl PlayerOptions \<times> 'pl PlayerOptions"
  syzygy_tb :: "'h SyzygyTablebase option"
  trees :: "('h, 'm) NodeTree list"
  results :: "GameResult list"
  abort :: bool

text \<open>The constructor: one tree and one result per opening, in order.\<close>

definition add_opening ::
  "('h, 'm, 'pl) rules \<Rightarrow> 'm Opening \<Rightarrow> ('h, 'm, 'pl) MultiSelfPlayGames \<Rightarrow>
   ('h, 'm, 'pl) MultiSelfPlayGames" where
  "add_opening env opening st =
     st\<lparr>trees := trees st @ [fold (\<lambda>m t. MakeMove env t m) (moves opening)
                                  (ResetToPosition env (start_fen opening))],
        results := results st @ [UNDECIDED]\<rparr>"

definition construct ::
  "('h, 'm, 'pl) rules \<Rightarrow> 'pl PlayerOptions \<Rightarrow> 'pl PlayerOptions \<Rightarrow> 'm Opening list \<Rightarrow>
   'h SyzygyTablebase option \<Rightarrow> ('h, 'm, 'pl) MultiSelfPlayGames" where
  "construct env player1 player2 openings tb_opt =
     fold (add_opening env) openings
       \<lparr>options = (player1, player2), syzygy_tb = tb_opt, trees = [], results = [],
        abort = False\<rparr>"

definition Abort :: "('h, 'm, 'pl) MultiSelfPlayGames \<Rightarrow> ('h, 'm, 'pl) MultiSelfPlayGames" where
  "Abort st = st\<lparr>abort := True\<rparr>"

subsection \<open>The resolution scan\<close>

text \<open>
  The tablebase block of the scan for session \<open>i\<close>: the result it writes before its
  \<open>continue\<close>, if it reaches one, and the probe call it makes, if any.
\<close>

definition tablebase_result ::
  "('h, 'm, 'pl) rules \<Rightarrow> 'h SyzygyTablebase option \<Rightarrow> nat \<Rightarrow> ('h, 'm) NodeTree \<Rightarrow>
   GameResult option \<times> event list" where
  "tablebase_result env tb_opt i tree =
     (case tb_opt of
        None \<Rightarrow> (None, [])
      | Some tb \<Rightarrow>
          if no_legal_castle env (history tree) \<and>
             piece_count env (history tree) \<le> max_cardinality tb
          then
            let tb_side_black = (GetPlyCount env (history tree) mod 2 = 1);
                (wdl, state) = probe_wdl tb (history tree)
            in if state \<noteq> FAIL
               then (Some (if wdl = WDL_WIN
                           then (if tb_side_black then BLACK_WON else WHITE_WON)
                           else if wdl = WDL_LOSS
                           then (if tb_side_black then WHITE_WON else BLACK_WON)
                           else DRAW),
                     [EvProbe i])
               else (None, [EvProbe i])
          else (None, []))"

text \<open>
  One pass of the first loop body. The loop state is \<open>results\<close>, \<open>all_done\<close>,
  \<open>blacks_move\<close> and the calls made so far.
\<close>

definition resolve_step ::
  "('h, 'm, 'pl) rules \<Rightarrow> 'h SyzygyTablebase option \<Rightarrow> ('h, 'm) NodeTree list \<Rightarrow> nat \<Rightarrow>
   GameResult list \<times> bool \<times> bool \<times> event list \<Rightarrow>
   GameResult list \<times> bool \<times> bool \<times> event list" where
  "resolve_step env tb_opt ts i = (\<lambda>(rs, all_done, blacks_move, trace).
     let tree = ts ! i in
     if rs ! i = UNDECIDED then
       if ComputeGameResult env (history tree) \<noteq> UNDECIDED
       then (rs[i := ComputeGameResult env (history tree)], all_done, blacks_move, trace)
       else
         (case tablebase_result env tb_opt i tree of
            (Some r, probes) \<Rightarrow> (rs[i := r], all_done, blacks_move, trace @ probes)
          | (None, probes) \<Rightarrow>
              if all_done
              then (rs, False, GetPlyCount env (history tree) mod 2 = 1, trace @ probes)
              else (rs, all_done, blacks_move, trace @ probes))
     else (rs, all_done, blacks_move, trace))"

subsection \<open>The gather and move loops\<close>

definition gather_step ::
  "('h, 'm, 'pl) rules \<Rightarrow> GameResult list \<Rightarrow> bool \<Rightarrow> nat \<Rightarrow>
   ('h, 'm) NodeTree list \<times> 'pl PolicyEvaluator \<times> event list \<Rightarrow>
   ('h, 'm) NodeTree list \<times> 'pl PolicyEvaluator \<times> event list" where
  "gather_step env rs blacks_move i = (\<lambda>(ts, pe, trace).
     let tree = ts ! i in
     if rs ! i \<noteq> UNDECIDED then (ts, pe, trace)
     else if (GetPlyCount env (history tree) mod 2 = 1) \<noteq> blacks_move then (ts, pe, trace)
     else
       let legal_moves = GenerateLegalMoves env (history tree);
           tree' = CreateEdges tree legal_moves
       in (ts[i := tree'], Gather env pe tree',
           trace @ [EvGather i (length (transforms pe))]))"

definition move_step ::
  "('h, 'm, 'pl) rules \<Rightarrow> GameResult list \<Rightarrow> bool \<Rightarrow> nat \<Rightarrow>
   ('h, 'm) NodeTree list \<times> 'pl PolicyEvaluator \<times> event list \<Rightarrow>
   (('h, 'm) NodeTree list \<times> 'pl PolicyEvaluator \<times> event list) option" where
  "move_step env rs blacks_move i = (\<lambda>(ts, pe, trace).
     let tree = ts ! i in
     if rs ! i \<noteq> UNDECIDED then Some (ts, pe, trace)
     else if (GetPlyCount env (history tree) mod 2 = 1) \<noteq> blacks_move
     then Some (ts, pe, trace)
     else
       (case MakeBestMove env pe tree of
          None \<Rightarrow> None
        | Some (pe', tree') \<Rightarrow>
            Some (ts[i := tree'], pe', trace @ [EvMakeBestMove i (comp_idx pe)])))"

subsection \<open>One iteration of the loop of Play\<close>

datatype loop_exit = Break | Continue

definition Play_iteration ::
  "('h, 'm, 'pl) rules \<Rightarrow> ('h, 'm, 'pl) MultiSelfPlayGames \<times> 'pl PolicyEvaluator \<Rightarrow>
   (loop_exit \<times> (('h, 'm, 'pl) MultiSelfPlayGames \<times> 'pl PolicyEvaluator) \<times> event list) option"
  where
  "Play_iteration env = (\<lambda>(st, evaluator).
     let n = length (trees st);
         (rs, all_done, blacks_move, trace1) =
            fold (resolve_step env (syzygy_tb st) (trees st)) [0..<n]
              (results st, True, False, []);
         st1 = st\<lparr>results := rs\<rparr>
     in if all_done then Some (Break, (st1, evaluator), trace1)
        else
          let idx = (if blacks_move then 1 else 0 :: nat);
              pe1 = Reset (if idx = 0 then fst (options st) else snd (options st));
              (trees2, pe2, trace2) =
                 fold (gather_step env rs blacks_move) [0..<n]
                   (trees st, pe1, trace1 @ [EvReset idx]);
              pe3 = Run pe2
          in case fold (\<lambda>i acc. Option.bind acc (move_step env rs blacks_move i)) [0..<n]
                    (Some (trees2, pe3, trace2 @ [EvRun])) of
               None \<Rightarrow> None
             | Some (trees3, pe4, trace3) \<Rightarrow>
                 Some (Continue, (st1\<lparr>trees := trees3\<rparr>, pe4), trace3))"

subsection \<open>Play\<close>

text \<open>
  \<open>Abort\<close> may be called from another thread at any time; \<open>Play\<close> reads the flag under
  the lock once per iteration. \<open>abort_calls k\<close> says whether \<open>Abort\<close> was called between
  the previous read of the flag and the \<open>k\<close>-th one. \<open>Play\<close> need not return: games
  may go on forever, and then the value is \<open>None\<close>.
\<close>

partial_function (option) Play_loop ::
  "('h, 'm, 'pl) rules \<Rightarrow> (nat \<Rightarrow> bool) \<Rightarrow> nat \<Rightarrow>
   ('h, 'm, 'pl) MultiSelfPlayGames \<times> 'pl PolicyEvaluator \<Rightarrow> event list \<Rightarrow>
   ((('h, 'm, 'pl) MultiSelfPlayGames \<times> 'pl PolicyEvaluator) \<times> event list) option" where
  "Play_loop env abort_calls k s trace =
     (let s1 = (if abort_calls k then (Abort (fst s), snd s) else s)
      in if abort (fst s1) then Some (s1, trace)
         else
           (case Play_iteration env s1 of
              None \<Rightarrow> None
            | Some (Break, s2, calls) \<Rightarrow> Some (s2, trace @ calls)
            | Some (Continue, s2, calls) \<Rightarrow>
                Play_loop env abort_calls (k + 1) s2 (trace @ calls)))"

definition Play ::
  "('h, 'm, 'pl) rules \<Rightarrow> (nat \<Rightarrow> bool) \<Rightarrow> 'pl PolicyEvaluator \<Rightarrow>
   ('h, 'm, 'pl) MultiSelfPlayGames \<Rightarrow>
   ((('h, 'm, 'pl) MultiSelfPlayGames \<times> 'pl PolicyEvaluator) \<times> event list) option" where
  "Play env abort_calls evaluator st = Play_loop env abort_calls 0 (st, evaluator) []"

section \<open>Notions used in the statements\<close>

text \<open>
  The score \<open>MakeBestMove\<close> reads for an edge once the batch outputs \<open>out\<close> are there: the
  policy value of the slot at the cursor, at the edge's index under that slot's transform.
\<close>

definition edge_policy ::
  "('h, 'm, 'pl) rules \<Rightarrow> 'pl PolicyEvaluator \<Rightarrow> (nat \<Rightarrow> nat \<Rightarrow> float32) \<Rightarrow> 'm \<Rightarrow> float32" where
  "edge_policy env pe out edge =
     out (comp_idx pe) (as_nn_index env (GetMove env edge False) (transforms pe ! comp_idx pe))"

text \<open>
  The policy value that batch outputs \<open>out\<close> hold at a given slot for an edge, the edge's
  index being taken under a given transform. It names the slot and the transform
  explicitly and does not look at the evaluator.
\<close>

definition slot_score ::
  "('h, 'm, 'pl) rules \<Rightarrow> (nat \<Rightarrow> nat \<Rightarrow> float32) \<Rightarrow> nat \<Rightarrow> int \<Rightarrow> 'm \<Rightarrow> float32" where
  "slot_score env out slot transform edge =
     out slot (as_nn_index env (GetMove env edge False) transform)"

text \<open>The calls of one kind in a trace, in order, each with its session and slot.\<close>

fun gather_events :: "event list \<Rightarrow> (nat \<times> nat) list" where
  "gather_events [] = []"
| "gather_events (EvGather i slot # es) = (i, slot) # gather_events es"
| "gather_events (e # es) = gather_events es"

fun move_events :: "event list \<Rightarrow> (nat \<times> nat) list" where
  "move_events [] = []"
| "move_events (EvMakeBestMove i slot # es) = (i, slot) # move_events es"
| "move_events (e # es) = move_events es"

fun reset_events :: "event list \<Rightarrow> nat list" where
  "reset_events [] = []"
| "reset_events (EvReset idx # es) = idx # reset_events es"
| "reset_events (e # es) = reset_events es"

section \<open>Closed forms of the loops\<close>

text \<open>
  The three loops of \<open>Play\<close> touch, at index \<open>i\<close>, only session \<open>i\<close> (and the evaluator), so
  each has a closed form: what the scan makes of one session, the list of sessions due to
  move, the evaluator after gathering them, and the trees after their moves. These
  definitions are used in the proofs only. The lemmas \<open>resolve_fold\<close>, \<open>gather_fold\<close>,
  \<open>move_fold\<close> and \<open>Play_iteration_eq\<close> show that the loops as written above compute them.
\<close>

definition scan_result ::
  "('h, 'm, 'pl) rules \<Rightarrow> 'h SyzygyTablebase option \<Rightarrow> nat \<Rightarrow> ('h, 'm) NodeTree \<Rightarrow>
   GameResult \<Rightarrow> GameResult" where
  "scan_result env tb_opt i tree r =
     (if r = UNDECIDED then
        if ComputeGameResult env (history tree) \<noteq> UNDECIDED
        then ComputeGameResult env (history tree)
        else (case fst (tablebase_result env tb_opt i tree) of Some r' \<Rightarrow> r' | None \<Rightarrow> UNDECIDED)
      else r)"

definition scan_probes ::
  "('h, 'm, 'pl) rules \<Rightarrow> 'h SyzygyTablebase option \<Rightarrow> nat \<Rightarrow> ('h, 'm) NodeTree \<Rightarrow>
   GameResult \<Rightarrow> event list" where
  "scan_probes env tb_opt i tree r =
     (if r = UNDECIDED \<and> ComputeGameResult env (history tree) = UNDECIDED
      then snd (tablebase_result env tb_opt i tree) else [])"

definition blacks_turn :: "('h, 'm, 'pl) rules \<Rightarrow> ('h, 'm) NodeTree \<Rightarrow> bool" where
  "blacks_turn env tree = (GetPlyCount env (history tree) mod 2 = 1)"

definition due ::
  "('h, 'm, 'pl) rules \<Rightarrow> GameResult list \<Rightarrow> bool \<Rightarrow> ('h, 'm) NodeTree list \<Rightarrow> nat \<Rightarrow> bool" where
  "due env rs bm ts i = (rs ! i = UNDECIDED \<and> blacks_turn env (ts ! i) = bm)"

definition with_edges :: "('h, 'm, 'pl) rules \<Rightarrow> ('h, 'm) NodeTree \<Rightarrow> ('h, 'm) NodeTree" where
  "with_edges env tree = CreateEdges tree (GenerateLegalMoves env (history tree))"

definition gathered ::
  "('h, 'm, 'pl) rules \<Rightarrow> 'pl PolicyEvaluator \<Rightarrow> ('h, 'm) NodeTree list \<Rightarrow> nat list \<Rightarrow>
   'pl PolicyEvaluator" where
  "gathered env pe ts is =
     pe\<lparr>transforms := transforms pe @
                        map (\<lambda>i. snd (EncodePositionForNN env (input_format pe) (history (ts ! i)))) is,
        comp_inputs := comp_inputs pe @
                        map (\<lambda>i. fst (EncodePositionForNN env (input_format pe) (history (ts ! i)))) is\<rparr>"

definition gather_calls :: "nat \<Rightarrow> nat list \<Rightarrow> event list" where
  "gather_calls s is = map (\<lambda>(slot, i). EvGather i slot) (enumerate s is)"

definition chosen_move ::
  "('h, 'm, 'pl) rules \<Rightarrow> 'pl PolicyEvaluator \<Rightarrow> ('h, 'm) NodeTree \<Rightarrow> 'm" where
  "chosen_move env pe tree =
     (case best_loop env pe (history tree) (head_edges tree) (float_lowest, default_Move env) of
        Some (max_p, best) \<Rightarrow> best
      | None \<Rightarrow> default_Move env)"

definition at_slot :: "'pl PolicyEvaluator \<Rightarrow> nat \<Rightarrow> 'pl PolicyEvaluator" where
  "at_slot pe s = pe\<lparr>comp_idx := s\<rparr>"

definition move_calls :: "nat \<Rightarrow> nat list \<Rightarrow> event list" where
  "move_calls s is = map (\<lambda>(slot, i). EvMakeBestMove i slot) (enumerate s is)"

definition slot_of :: "(nat \<Rightarrow> bool) \<Rightarrow> nat \<Rightarrow> nat" where
  "slot_of P i = length (filter P [0..<i])"

definition scan_all ::
  "('h, 'm, 'pl) rules \<Rightarrow> ('h, 'm, 'pl) MultiSelfPlayGames \<Rightarrow> GameResult list" where
  "scan_all env st =
     map (\<lambda>i. scan_result env (syzygy_tb st) i (trees st ! i) (results st ! i))
       [0..<length (trees st)]"

definition probe_calls ::
  "('h, 'm, 'pl) rules \<Rightarrow> ('h, 'm, 'pl) MultiSelfPlayGames \<Rightarrow> event list" where
  "probe_calls env st =
     concat (map (\<lambda>i. scan_probes env (syzygy_tb st) i (trees st ! i) (results st ! i))
       [0..<length (trees st)])"

definition due_side ::
  "('h, 'm, 'pl) rules \<Rightarrow> ('h, 'm, 'pl) MultiSelfPlayGames \<Rightarrow> bool" where
  "due_side env st =
     (case find (\<lambda>i. scan_all env st ! i = UNDECIDED) [0..<length (trees st)] of
        Some j \<Rightarrow> blacks_turn env (trees st ! j)
      | None \<Rightarrow> False)"

definition due_list ::
  "('h, 'm, 'pl) rules \<Rightarrow> ('h, 'm, 'pl) MultiSelfPlayGames \<Rightarrow> nat list" where
  "due_list env st =
     filter (due env (scan_all env st) (due_side env st) (trees st)) [0..<length (trees st)]"

definition due_player ::
  "('h, 'm, 'pl) rules \<Rightarrow> ('h, 'm, 'pl) MultiSelfPlayGames \<Rightarrow> 'pl PlayerOptions" where
  "due_player env st = (if due_side env st then snd (options st) else fst (options st))"

definition batch ::
  "('h, 'm, 'pl) rules \<Rightarrow> ('h, 'm, 'pl) MultiSelfPlayGames \<Rightarrow> 'pl PolicyEvaluator" where
  "batch env st = Run (gathered env (Reset (due_player env st)) (trees st) (due_list env st))"

definition moved_trees ::
  "('h, 'm, 'pl) rules \<Rightarrow> ('h, 'm, 'pl) MultiSelfPlayGames \<Rightarrow> ('h, 'm) NodeTree list" where
  "moved_trees env st =
     map (\<lambda>i. if due env (scan_all env st) (due_side env st) (trees st) i
               then MakeMove env (with_edges env (trees st ! i))
                      (chosen_move env
                         (at_slot (batch env st)
                            (slot_of (due env (scan_all env st) (due_side env st) (trees st)) i))
                         (with_edges env (trees st ! i)))
               else trees st ! i)
       [0..<length (trees st)]"

definition iteration_trace ::
  "('h, 'm, 'pl) rules \<Rightarrow> ('h, 'm, 'pl) MultiSelfPlayGames \<Rightarrow> event list" where
  "iteration_trace env st =
     probe_calls env st @ [EvReset (if due_side env st then 1 else 0)] @
     gather_calls 0 (due_list env st) @ [EvRun] @ move_calls 0 (due_list env st)"

section \<open>A concrete instance\<close>

text \<open>
  A small game on which the theorems are evaluated: a position history is the list of
  moves played (latest first), every position has the legal moves 3, 5 and 7, a game is
  drawn after six plies, and the tablebase covers positions from ply four on, knowing a
  win at ply four and failing elsewhere. A move seen from black's side is shifted by 100.
\<close>

definition toy_rules :: "(nat list, nat, nat) rules" where
  "toy_rules =
     \<lparr>ComputeGameResult = (\<lambda>h. if 6 \<le> length h then DRAW else UNDECIDED),
      no_legal_castle = (\<lambda>h. 4 \<le> length h),
      piece_count = (\<lambda>h. if 4 \<le> length h then 5 else 32),
      GetPlyCount = length,
      IsBlackToMove = (\<lambda>h. odd (length h)),
      GenerateLegalMoves = (\<lambda>h. [3, 5, 7]),
      EncodePositionForNN = (\<lambda>fmt h. (length h + fmt, int (length h))),
      as_nn_index = (\<lambda>m transform. m),
      GetMove = (\<lambda>m flip. if flip then m + 100 else m),
      default_Move = 0,
      MakeMove = (\<lambda>t m. \<lparr>history = m # history t, head_edges = []\<rparr>),
      ResetToPosition = (\<lambda>fen. \<lparr>history = [], head_edges = []\<rparr>)\<rparr>"

definition toy_tb :: "nat list SyzygyTablebase" where
  "toy_tb =
     \<lparr>max_cardinality = 5,
      probe_wdl = (\<lambda>h. if length h = 4 then (WDL_WIN, OK) else (WDL_DRAW, FAIL))\<rparr>"

text \<open>
  White's network scores move 3 with 1.0 and every other move with 2.0; black's scores
  move 5 with 2.0 and every other move with 1.0. Two broken networks return minus
  infinity and a NaN for every move.
\<close>

definition toy_white :: "nat PlayerOptions" where
  "toy_white =
     \<lparr>network = (\<lambda>inputs slot idx. if idx = 3 then 0x3F800000 else 0x40000000),
      capabilities_input_format = 1\<rparr>"

definition toy_black :: "nat PlayerOptions" where
  "toy_black =
     \<lparr>network = (\<lambda>inputs slot idx. if idx = 5 then 0x40000000 else 0x3F800000),
      capabilities_input_format = 2\<rparr>"

definition toy_minus_inf :: "nat PlayerOptions" where
  "toy_minus_inf = \<lparr>network = (\<lambda>inputs slot idx. 0xFF800000), capabilities_input_format = 1\<rparr>"

definition toy_nan :: "nat PlayerOptions" where
  "toy_nan = \<lparr>network = (\<lambda>inputs slot idx. 0x7FC00000), capabilities_input_format = 1\<rparr>"

definition toy_tree :: "(nat list, nat) NodeTree" where
  "toy_tree = \<lparr>history = [], head_edges = [3, 5, 7]\<rparr>"

text \<open>The evaluator after \<open>Reset\<close>, one \<open>Gather\<close> of \<open>toy_tree\<close> and \<open>Run\<close>.\<close>

definition toy_batch :: "nat PlayerOptions \<Rightarrow> nat PolicyEvaluator" where
  "toy_batch player = Run (Gather toy_rules (Reset player) toy_tree)"

text \<open>
  Six sessions: one the tablebase decides, one where the probe fails (black to move),
  one with white to move, one with black to move, one drawn by the rules, and one decided
  earlier.
\<close>

definition toy_games :: "(nat list, nat, nat) MultiSelfPlayGames" where
  "toy_games =
     \<lparr>options = (toy_white, toy_black),
      syzygy_tb = Some toy_tb,
      trees = [\<lparr>history = [0, 0, 0, 0], head_edges = []\<rparr>,
               \<lparr>history = [0, 0, 0, 0, 0], head_edges = []\<rparr>,
               \<lparr>history = [0, 0], head_edges = []\<rparr>,
               \<lparr>history = [0], head_edges = []\<rparr>,
               \<lparr>history = [0, 0, 0, 0, 0, 0], head_edges = []\<rparr>,
               \<lparr>history = [], head_edges = []\<rparr>],
      results = [UNDECIDED, UNDECIDED, UNDECIDED, UNDECIDED, UNDECIDED, BLACK_WON],
      abort = False\<rparr>"

text \<open>
  Three sessions that need no move: one drawn by the rules, one the tablebase decides, one
  decided earlier.
\<close>

definition toy_endgame :: "(nat list, nat, nat) MultiSelfPlayGames" where
  "toy_endgame =
     \<lparr>options = (toy_white, toy_black),
      syzygy_tb = Some toy_tb,
      trees = [\<lparr>history = [0, 0, 0, 0, 0, 0], head_edges = []\<rparr>,
               \<lparr>history = [0, 0, 0, 0], head_edges = []\<rparr>,
               \<lparr>history = [], head_edges = []\<rparr>],
      results = [UNDECIDED, UNDECIDED, BLACK_WON],
      abort = False\<rparr>"

text \<open>
  A variant in which slot and transform matter: the index of a move is shifted by the
  transform, which is the ply count, and the network prefers index 5 in slot 0 and
  index 9 in slot 1. Two sessions with white to move, at ply 0 and at ply 2: the first
  must play move 5, and the second, gathered into slot 1 with transform 2, move 7.
\<close>

definition toy_rules_transformed :: "(nat list, nat, nat) rules" where
  "toy_rules_transformed = toy_rules\<lparr>as_nn_index := (\<lambda>m transform. m + nat transform)\<rparr>"

definition toy_slot_player :: "nat PlayerOptions" where
  "toy_slot_player =
     \<lparr>network = (\<lambda>inputs slot idx. if idx = 5 + 4 * slot then 0x40000000 else 0x3F800000),
      capabilities_input_format = 1\<rparr>"

definition toy_pair :: "(nat list, nat, nat) MultiSelfPlayGames" where
  "toy_pair =
     \<lparr>options = (toy_slot_player, toy_black),
      syzygy_tb = None,
      trees = [\<lparr>history = [], head_edges = []\<rparr>, \<lparr>history = [0, 0], head_edges = []\<rparr>],
      results = [UNDECIDED, UNDECIDED],
      abort = False\<rparr>"

section \<open>Lemmas\<close>

lemma float_ge_refl: "\<not> float_isnan a \<Longrightarrow> float_ge a a"
  by (simp add: float_ge_def)

lemma float_ge_trans: "float_ge a b \<Longrightarrow> float_ge b c \<Longrightarrow> float_ge a c"
  by (auto simp: float_ge_def)

lemma float_ge_total: "\<not> float_isnan a \<Longrightarrow> \<not> float_isnan b \<Longrightarrow> float_ge a b \<or> float_ge b a"
  by (auto simp: float_ge_def)

lemma float_ge_not_nan: "float_ge a b \<Longrightarrow> \<not> float_isnan a \<and> \<not> float_isnan b"
  by (simp add: float_ge_def)

lemma float_lowest_not_nan: "\<not> float_isnan float_lowest"
  by (simp add: float_isnan_def float_lowest_def float_magnitude_def)

lemma edge_score_Some:
  "comp_idx pe < length (transforms pe) \<Longrightarrow> comp_outputs pe = Some out \<Longrightarrow>
   edge_score env pe edge = Some (edge_policy env pe out edge)"
  by (simp add: edge_score_def GetPVal_def edge_policy_def)

lemma best_loop_none_ge:
  assumes "\<And>e. edge_score env pe e = Some (sc e)"
      and "\<forall>e\<in>set es. \<not> float_ge (sc e) mp"
  shows "best_loop env pe h es (mp, b) = Some (mp, b)"
  using assms(2) by (induction es) (simp_all add: assms(1))

lemma best_loop_some_ge:
  assumes sc: "\<And>e. edge_score env pe e = Some (sc e)"
      and "\<not> float_isnan mp"
      and "\<exists>e\<in>set es. float_ge (sc e) mp"
  shows "\<exists>pre e post. es = pre @ e # post \<and>
           best_loop env pe h es (mp, b) = Some (sc e, GetMove env e (IsBlackToMove env h)) \<and>
           float_ge (sc e) mp \<and>
           (\<forall>x\<in>set es. \<not> float_isnan (sc x) \<longrightarrow> float_ge (sc e) (sc x)) \<and>
           (\<forall>x\<in>set post. \<not> float_ge (sc x) (sc e))"
  using assms(2,3)
proof (induction es arbitrary: mp b)
  case Nil
  then show ?case by simp
next
  case (Cons a es)
  let ?mv = "\<lambda>e. GetMove env e (IsBlackToMove env h)"
  show ?case
  proof (cases "float_ge (sc a) mp")
    case take: True
    then have nn: "\<not> float_isnan (sc a)" by (simp add: float_ge_def)
    have step: "best_loop env pe h (a # es) (mp, b) = best_loop env pe h es (sc a, ?mv a)"
      using take by (simp add: sc)
    show ?thesis
    proof (cases "\<exists>e\<in>set es. float_ge (sc e) (sc a)")
      case True
      from Cons.IH[OF nn True, of "?mv a"] obtain pre e post where
        e: "es = pre @ e # post"
        "best_loop env pe h es (sc a, ?mv a) = Some (sc e, ?mv e)"
        "float_ge (sc e) (sc a)"
        "\<forall>x\<in>set es. \<not> float_isnan (sc x) \<longrightarrow> float_ge (sc e) (sc x)"
        "\<forall>x\<in>set post. \<not> float_ge (sc x) (sc e)"
        by blast
      have "a # es = (a # pre) @ e # post" using e(1) by simp
      moreover have "float_ge (sc e) mp" using e(3) take by (rule float_ge_trans)
      moreover have "\<forall>x\<in>set (a # es). \<not> float_isnan (sc x) \<longrightarrow> float_ge (sc e) (sc x)"
        using e(3,4) by simp
      ultimately show ?thesis using e(2,5) step by metis
    next
      case False
      then have "best_loop env pe h es (sc a, ?mv a) = Some (sc a, ?mv a)"
        using best_loop_none_ge[of env pe sc es "sc a" h "?mv a"] sc by blast
      moreover have "\<forall>x\<in>set (a # es). \<not> float_isnan (sc x) \<longrightarrow> float_ge (sc a) (sc x)"
        using False nn float_ge_total float_ge_refl by auto
      moreover have "a # es = [] @ a # es" by simp
      ultimately show ?thesis using step take False by metis
    qed
  next
    case skip: False
    then have step: "best_loop env pe h (a # es) (mp, b) = best_loop env pe h es (mp, b)"
      by (simp add: sc)
    from skip Cons.prems have ex: "\<exists>e\<in>set es. float_ge (sc e) mp" by auto
    from Cons.IH[OF Cons.prems(1) ex, of b] obtain pre e post where
      e: "es = pre @ e # post"
      "best_loop env pe h es (mp, b) = Some (sc e, ?mv e)"
      "float_ge (sc e) mp"
      "\<forall>x\<in>set es. \<not> float_isnan (sc x) \<longrightarrow> float_ge (sc e) (sc x)"
      "\<forall>x\<in>set post. \<not> float_ge (sc x) (sc e)"
      by blast
    have "a # es = (a # pre) @ e # post" using e(1) by simp
    moreover have "\<not> float_isnan (sc a) \<longrightarrow> float_ge (sc e) (sc a)"
    proof
      assume "\<not> float_isnan (sc a)"
      with skip Cons.prems(1) have "float_ge mp (sc a)" using float_ge_total by blast
      with e(3) show "float_ge (sc e) (sc a)" by (rule float_ge_trans)
    qed
    then have "\<forall>x\<in>set (a # es). \<not> float_isnan (sc x) \<longrightarrow> float_ge (sc e) (sc x)"
      using e(4) by simp
    ultimately show ?thesis using e(2,3,5) step by metis
  qed
qed

lemma list_update_same_val: "rs ! i = v \<Longrightarrow> rs[i := v] = rs"
  by (metis list_update_id)

lemma resolve_step_eq:
  assumes "i < length rs" 
  shows "resolve_step env tb ts i (rs, ad, bm, tr) =
     (rs[i := scan_result env tb i (ts ! i) (rs ! i)],
      ad \<and> scan_result env tb i (ts ! i) (rs ! i) \<noteq> UNDECIDED,
      (if ad \<and> scan_result env tb i (ts ! i) (rs ! i) = UNDECIDED then blacks_turn env (ts ! i) else bm),
      tr @ scan_probes env tb i (ts ! i) (rs ! i))"
proof -
  have tb: "\<And>r p. tablebase_result env tb i (ts ! i) = (Some r, p) \<Longrightarrow> r \<noteq> UNDECIDED"
    by (auto simp: tablebase_result_def Let_def split: option.splits if_splits prod.splits)
  show ?thesis
    using tb
    by (cases "tablebase_result env tb i (ts ! i)"; cases "fst (tablebase_result env tb i (ts ! i))")
       (auto simp: resolve_step_def scan_result_def scan_probes_def blacks_turn_def Let_def
             list_update_same_val)
qed

lemma resolve_fold:
  assumes "k \<le> length rs"
  shows "\<exists>rs' ad bm tr.
     fold (resolve_step env tb ts) [0..<k] (rs, True, False, []) = (rs', ad, bm, tr) \<and>
     length rs' = length rs \<and>
     (\<forall>i<length rs. rs' ! i = (if i < k then scan_result env tb i (ts ! i) (rs ! i) else rs ! i)) \<and>
     ad = (\<forall>i<k. rs' ! i \<noteq> UNDECIDED) \<and>
     (\<not> ad \<longrightarrow> (\<exists>j<k. rs' ! j = UNDECIDED \<and> (\<forall>l<j. rs' ! l \<noteq> UNDECIDED) \<and>
                     bm = blacks_turn env (ts ! j))) \<and>
     tr = concat (map (\<lambda>i. scan_probes env tb i (ts ! i) (rs ! i)) [0..<k])"
  using assms
proof (induction k)
  case 0
  show ?case
    by (rule exI[of _ rs], rule exI[of _ True], rule exI[of _ False], rule exI[of _ "[]"]) simp
next
  case (Suc k)
  have "k \<le> length rs" using Suc.prems by simp
  from Suc.IH[OF this] obtain rs' ad bm tr where
    f: "fold (resolve_step env tb ts) [0..<k] (rs, True, False, []) = (rs', ad, bm, tr)"
    and len: "length rs' = length rs"
    and pt: "\<forall>i<length rs. rs' ! i = (if i < k then scan_result env tb i (ts ! i) (rs ! i) else rs ! i)"
    and ad: "ad = (\<forall>i<k. rs' ! i \<noteq> UNDECIDED)"
    and bm: "\<not> ad \<longrightarrow> (\<exists>j<k. rs' ! j = UNDECIDED \<and> (\<forall>l<j. rs' ! l \<noteq> UNDECIDED) \<and>
                     bm = blacks_turn env (ts ! j))"
    and tr: "tr = concat (map (\<lambda>i. scan_probes env tb i (ts ! i) (rs ! i)) [0..<k])"
    by blast
  have k: "k < length rs" "k < length rs'" using Suc.prems len by auto
  have rk: "rs' ! k = rs ! k" using pt k by simp
  let ?r = "scan_result env tb k (ts ! k) (rs ! k)"
  let ?rs = "rs'[k := ?r]"
  have step: "fold (resolve_step env tb ts) [0..<Suc k] (rs, True, False, []) =
     (?rs, ad \<and> ?r \<noteq> UNDECIDED, (if ad \<and> ?r = UNDECIDED then blacks_turn env (ts ! k) else bm),
      tr @ scan_probes env tb k (ts ! k) (rs ! k))"
    using f resolve_step_eq[OF k(2), of env tb ts ad bm tr] rk by simp
  have pt': "\<forall>i<length rs. ?rs ! i = (if i < Suc k then scan_result env tb i (ts ! i) (rs ! i) else rs ! i)"
    using pt k len by (auto simp: nth_list_update less_Suc_eq)
  have ad': "(ad \<and> ?r \<noteq> UNDECIDED) = (\<forall>i<Suc k. ?rs ! i \<noteq> UNDECIDED)"
    using ad k by (auto simp: nth_list_update less_Suc_eq)
  have bm': "\<not> (ad \<and> ?r \<noteq> UNDECIDED) \<longrightarrow> (\<exists>j<Suc k. ?rs ! j = UNDECIDED \<and> (\<forall>l<j. ?rs ! l \<noteq> UNDECIDED) \<and>
       (if ad \<and> ?r = UNDECIDED then blacks_turn env (ts ! k) else bm) = blacks_turn env (ts ! j))"
  proof (cases ad)
    case True
    show ?thesis
    proof (intro impI)
      assume "\<not> (ad \<and> ?r \<noteq> UNDECIDED)"
      with True have u: "?r = UNDECIDED" by simp
      have "?rs ! k = UNDECIDED" using u k by simp
      moreover have "\<forall>l<k. ?rs ! l \<noteq> UNDECIDED" using True ad by (simp add: nth_list_update)
      ultimately show "\<exists>j<Suc k. ?rs ! j = UNDECIDED \<and> (\<forall>l<j. ?rs ! l \<noteq> UNDECIDED) \<and>
       (if ad \<and> ?r = UNDECIDED then blacks_turn env (ts ! k) else bm) = blacks_turn env (ts ! j)"
        using True u by (intro exI[of _ k]) simp
    qed
  next
    case False
    with bm obtain j where j: "j < k" "rs' ! j = UNDECIDED" "\<forall>l<j. rs' ! l \<noteq> UNDECIDED"
      "bm = blacks_turn env (ts ! j)" by blast
    then have "?rs ! j = UNDECIDED" "\<forall>l<j. ?rs ! l \<noteq> UNDECIDED"
      by (simp_all add: nth_list_update)
    then show ?thesis using False j(1,4) by (intro impI exI[of _ j]) simp
  qed
  have l': "length ?rs = length rs" using len by simp
  have tr': "tr @ scan_probes env tb k (ts ! k) (rs ! k) =
      concat (map (\<lambda>i. scan_probes env tb i (ts ! i) (rs ! i)) [0..<Suc k])"
    using tr by simp
  from step l' pt' ad' bm' tr' show ?case by blast
qed

lemma gather_step_eq:
  "gather_step env rs bm i (ts, pe, tr) =
     (if due env rs bm ts i
      then (ts[i := with_edges env (ts ! i)], gathered env pe ts [i],
            tr @ [EvGather i (length (transforms pe))])
      else (ts, pe, tr))"
  by (auto simp: gather_step_def due_def blacks_turn_def with_edges_def gathered_def Gather_def
                 CreateEdges_def Let_def split_def)

lemma gathered_append:
  "gathered env (gathered env pe ts is) ts js = gathered env pe ts (is @ js)"
  by (simp add: gathered_def)

lemma gathered_Nil: "gathered env pe ts [] = pe"
  by (simp add: gathered_def)

lemma length_transforms_gathered:
  "length (transforms (gathered env pe ts is)) = length (transforms pe) + length is"
  by (simp add: gathered_def)

lemma gather_calls_snoc:
  "gather_calls s (is @ [i]) = gather_calls s is @ [EvGather i (s + length is)]"
  by (simp add: gather_calls_def enumerate_append_eq)

lemma map_upt_update:
  assumes "k < n" and "v = g k" and "\<And>i. i < n \<Longrightarrow> i \<noteq> k \<Longrightarrow> f i = g i"
  shows "(map f [0..<n])[k := v] = map g [0..<n]"
  using assms by (intro nth_equalityI) (auto simp: nth_list_update)

lemma map_upt_same:
  assumes "\<And>i. i < n \<Longrightarrow> f i = g i"
  shows "map f [0..<n] = map g [0..<n]"
  using assms by simp

lemma gather_fold:
  assumes "k \<le> length ts"
  shows "fold (gather_step env rs bm) [0..<k] (ts, pe, tr) =
     (map (\<lambda>i. if i < k \<and> due env rs bm ts i then with_edges env (ts ! i) else ts ! i)
          [0..<length ts],
      gathered env pe ts (filter (due env rs bm ts) [0..<k]),
      tr @ gather_calls (length (transforms pe)) (filter (due env rs bm ts) [0..<k]))"
  using assms
proof (induction k)
  case 0
  show ?case by (simp add: gathered_Nil gather_calls_def map_nth)
next
  case (Suc k)
  let ?P = "due env rs bm ts"
  let ?D = "filter ?P [0..<k]"
  let ?ts = "map (\<lambda>i. if i < k \<and> ?P i then with_edges env (ts ! i) else ts ! i) [0..<length ts]"
  let ?ts' = "map (\<lambda>i. if i < Suc k \<and> ?P i then with_edges env (ts ! i) else ts ! i)
                [0..<length ts]"
  let ?pe = "gathered env pe ts ?D"
  let ?tr = "tr @ gather_calls (length (transforms pe)) ?D"
  have k: "k < length ts" using Suc.prems by simp
  have IH: "fold (gather_step env rs bm) [0..<k] (ts, pe, tr) = (?ts, ?pe, ?tr)"
    using Suc.IH k by simp
  have tk: "?ts ! k = ts ! k" using k by simp
  have duek: "due env rs bm ?ts k = ?P k"
    using k by (simp add: due_def)
  have step: "fold (gather_step env rs bm) [0..<Suc k] (ts, pe, tr) =
      gather_step env rs bm k (?ts, ?pe, ?tr)"
    using IH by simp
  show ?case
  proof (cases "?P k")
    case True
    have A: "?ts[k := with_edges env (?ts ! k)] = ?ts'"
      unfolding tk using k True
      by (intro map_upt_update) (simp_all add: less_Suc_eq)
    have B: "gathered env ?pe ?ts [k] = gathered env pe ts (filter ?P [0..<Suc k])"
      using True k by (simp add: gathered_def)
    have C: "?tr @ [EvGather k (length (transforms ?pe))] =
        tr @ gather_calls (length (transforms pe)) (filter ?P [0..<Suc k])"
      using True by (simp add: gather_calls_snoc length_transforms_gathered)
    have "gather_step env rs bm k (?ts, ?pe, ?tr) =
        (?ts[k := with_edges env (?ts ! k)], gathered env ?pe ?ts [k],
         ?tr @ [EvGather k (length (transforms ?pe))])"
      using True duek by (simp only: gather_step_eq if_True)
    then show ?thesis unfolding step A B C .
  next
    case False
    have A: "?ts = ?ts'"
      using k False by (intro map_upt_same) (auto simp: less_Suc_eq)
    have B: "filter ?P [0..<Suc k] = ?D" using False by simp
    have "gather_step env rs bm k (?ts, ?pe, ?tr) = (?ts, ?pe, ?tr)"
      using False duek by (simp only: gather_step_eq if_False)
    also have "\<dots> = (?ts', ?pe, ?tr)" by (subst A) (rule refl)
    finally show ?thesis unfolding step B .
  qed
qed

lemma best_loop_total:
  assumes "\<And>e. edge_score env pe e = Some (sc e)"
  shows "\<exists>r. best_loop env pe h es acc = Some r"
proof (induction es arbitrary: acc)
  case Nil
  show ?case by simp
next
  case (Cons a es)
  obtain mp b where acc: "acc = (mp, b)" by (cases acc)
  show ?case
  proof (cases "float_ge (sc a) mp")
    case True
    then show ?thesis unfolding acc using Cons.IH[of "(sc a, GetMove env a (IsBlackToMove env h))"]
      by (simp add: assms)
  next
    case False
    then show ?thesis unfolding acc using Cons.IH[of "(mp, b)"] by (simp add: assms)
  qed
qed

lemma MakeBestMove_in_range:
  assumes "comp_idx pe < length (transforms pe)" "comp_outputs pe = Some out"
  shows "MakeBestMove env pe tree =
         Some (pe\<lparr>comp_idx := comp_idx pe + 1\<rparr>, MakeMove env tree (chosen_move env pe tree))"
proof -
  have sc: "\<And>e. edge_score env pe e = Some (edge_policy env pe out e)"
    by (rule edge_score_Some[OF assms])
  from best_loop_total[where sc = "edge_policy env pe out", OF sc]
  obtain r where "best_loop env pe (history tree) (head_edges tree)
                    (float_lowest, default_Move env) = Some r"
    by blast
  then show ?thesis by (cases r) (simp add: MakeBestMove_def chosen_move_def)
qed

lemma at_slot_simps:
  "comp_idx (at_slot pe s) = s"
  "transforms (at_slot pe s) = transforms pe"
  "comp_outputs (at_slot pe s) = comp_outputs pe"
  "comp_inputs (at_slot pe s) = comp_inputs pe"
  "comp_network (at_slot pe s) = comp_network pe"
  "input_format (at_slot pe s) = input_format pe"
  "at_slot (at_slot pe s) s' = at_slot pe s'"
  "at_slot pe (comp_idx pe) = pe"
  by (simp_all add: at_slot_def)

lemma move_calls_snoc:
  "move_calls s (is @ [i]) = move_calls s is @ [EvMakeBestMove i (s + length is)]"
  by (simp add: move_calls_def enumerate_append_eq)

lemma move_step_eq:
  assumes "comp_idx pe < length (transforms pe)" "comp_outputs pe = Some out"
  shows "move_step env rs bm i (ts, pe, tr) =
     Some (if due env rs bm ts i
      then (ts[i := MakeMove env (ts ! i) (chosen_move env pe (ts ! i))],
            at_slot pe (comp_idx pe + 1), tr @ [EvMakeBestMove i (comp_idx pe)])
      else (ts, pe, tr))"
  by (auto simp: move_step_def due_def blacks_turn_def Let_def at_slot_def
        MakeBestMove_in_range[OF assms])

lemma move_step_skip:
  "\<not> due env rs bm ts i \<Longrightarrow> move_step env rs bm i (ts, pe, tr) = Some (ts, pe, tr)"
  by (auto simp: move_step_def due_def blacks_turn_def Let_def)

lemma move_fold:
  assumes "k \<le> length ts" "comp_outputs pe = Some out"
      and "comp_idx pe + length (filter (due env rs bm ts) [0..<k]) \<le> length (transforms pe)"
  shows "fold (\<lambda>i acc. Option.bind acc (move_step env rs bm i)) [0..<k] (Some (ts, pe, tr)) =
     Some (map (\<lambda>i. if i < k \<and> due env rs bm ts i
                     then MakeMove env (ts ! i)
                            (chosen_move env
                               (at_slot pe (comp_idx pe + slot_of (due env rs bm ts) i)) (ts ! i))
                     else ts ! i)
               [0..<length ts],
           at_slot pe (comp_idx pe + length (filter (due env rs bm ts) [0..<k])),
           tr @ move_calls (comp_idx pe) (filter (due env rs bm ts) [0..<k]))"
  using assms(1,3)
proof (induction k)
  case 0
  show ?case by (simp add: move_calls_def map_nth at_slot_simps)
next
  case (Suc k)
  let ?P = "due env rs bm ts"
  let ?D = "filter ?P [0..<k]"
  let ?mv = "\<lambda>i. MakeMove env (ts ! i)
                (chosen_move env (at_slot pe (comp_idx pe + slot_of ?P i)) (ts ! i))"
  let ?ts = "map (\<lambda>i. if i < k \<and> ?P i then ?mv i else ts ! i) [0..<length ts]"
  let ?ts' = "map (\<lambda>i. if i < Suc k \<and> ?P i then ?mv i else ts ! i) [0..<length ts]"
  let ?pe = "at_slot pe (comp_idx pe + length ?D)"
  let ?tr = "tr @ move_calls (comp_idx pe) ?D"
  have k: "k < length ts" using Suc.prems by simp
  have le: "comp_idx pe + length ?D \<le> length (transforms pe)" using Suc.prems(2) by simp
  have IH: "fold (\<lambda>i acc. Option.bind acc (move_step env rs bm i)) [0..<k] (Some (ts, pe, tr)) =
     Some (?ts, ?pe, ?tr)"
    using Suc.IH k le by simp
  have tk: "?ts ! k = ts ! k" using k by simp
  have duek: "due env rs bm ?ts k = ?P k"
    using k by (simp add: due_def)
  have step: "fold (\<lambda>i acc. Option.bind acc (move_step env rs bm i)) [0..<Suc k]
                (Some (ts, pe, tr)) = move_step env rs bm k (?ts, ?pe, ?tr)"
    using IH by simp
  show ?case
  proof (cases "?P k")
    case True
    then have lt: "comp_idx ?pe < length (transforms ?pe)"
      using Suc.prems(2) by (simp add: at_slot_simps)
    have out: "comp_outputs ?pe = Some out" using assms(2) by (simp add: at_slot_simps)
    have sl: "slot_of ?P k = length ?D" by (simp add: slot_of_def)
    have A: "?ts[k := MakeMove env (?ts ! k) (chosen_move env ?pe (?ts ! k))] = ?ts'"
      unfolding tk using k True sl
      by (intro map_upt_update) (simp_all add: less_Suc_eq)
    have B: "at_slot ?pe (comp_idx ?pe + 1) =
        at_slot pe (comp_idx pe + length (filter ?P [0..<Suc k]))"
      using True by (simp add: at_slot_simps)
    have C: "?tr @ [EvMakeBestMove k (comp_idx ?pe)] =
        tr @ move_calls (comp_idx pe) (filter ?P [0..<Suc k])"
      using True by (simp add: move_calls_snoc at_slot_simps)
    have "move_step env rs bm k (?ts, ?pe, ?tr) =
        Some (?ts[k := MakeMove env (?ts ! k) (chosen_move env ?pe (?ts ! k))],
              at_slot ?pe (comp_idx ?pe + 1), ?tr @ [EvMakeBestMove k (comp_idx ?pe)])"
      using True duek by (simp only: move_step_eq[OF lt out] if_True)
    then show ?thesis unfolding step A B C .
  next
    case False
    have A: "?ts = ?ts'"
      using k False by (intro map_upt_same) (auto simp: less_Suc_eq)
    have B: "filter ?P [0..<Suc k] = ?D" using False by simp
    have nd: "\<not> due env rs bm ?ts k" using False duek by simp
    have "move_step env rs bm k (?ts, ?pe, ?tr) = Some (?ts, ?pe, ?tr)"
      by (rule move_step_skip[OF nd])
    also have "\<dots> = Some (?ts', ?pe, ?tr)" by (subst A) (rule refl)
    finally show ?thesis unfolding step B .
  qed
qed

lemma find_first_upt:
  assumes "j < n" "P j" "\<forall>l<j. \<not> P l"
  shows "find P [0..<n] = Some j"
  unfolding find_Some_iff using assms by (intro exI[of _ j]) simp

lemma history_with_edges: "history (with_edges env t) = history t"
  by (simp add: with_edges_def CreateEdges_def)

lemma Play_iteration_eq:
  assumes wf: "length (results st) = length (trees st)"
  shows "Play_iteration env (st, ev) =
     (if \<forall>i<length (trees st). scan_all env st ! i \<noteq> UNDECIDED
      then Some (Break, (st\<lparr>results := scan_all env st\<rparr>, ev), probe_calls env st)
      else Some (Continue,
                 (st\<lparr>results := scan_all env st, trees := moved_trees env st\<rparr>,
                  at_slot (batch env st) (length (due_list env st))),
                 probe_calls env st @ [EvReset (if due_side env st then 1 else 0)] @
                 gather_calls 0 (due_list env st) @ [EvRun] @
                 move_calls 0 (due_list env st)))"
proof -
  let ?n = "length (trees st)"
  let ?ts = "trees st"
  have "?n \<le> length (results st)" using wf by simp
  from resolve_fold[OF this, of env "syzygy_tb st" ?ts] obtain rs' ad bm tr where
    f: "fold (resolve_step env (syzygy_tb st) ?ts) [0..<?n] (results st, True, False, []) =
          (rs', ad, bm, tr)"
    and len: "length rs' = length (results st)"
    and pt: "\<forall>i<length (results st). rs' ! i =
               (if i < ?n then scan_result env (syzygy_tb st) i (?ts ! i) (results st ! i)
                else results st ! i)"
    and ad: "ad = (\<forall>i<?n. rs' ! i \<noteq> UNDECIDED)"
    and bm: "\<not> ad \<longrightarrow> (\<exists>j<?n. rs' ! j = UNDECIDED \<and> (\<forall>l<j. rs' ! l \<noteq> UNDECIDED) \<and>
                     bm = blacks_turn env (?ts ! j))"
    and tr: "tr = concat (map (\<lambda>i. scan_probes env (syzygy_tb st) i (?ts ! i) (results st ! i))
                     [0..<?n])"
    by blast
  have rs': "rs' = scan_all env st"
    using len pt wf by (intro nth_equalityI) (simp_all add: scan_all_def)
  have tr': "tr = probe_calls env st" using tr by (simp add: probe_calls_def)
  show ?thesis
  proof (cases ad)
    case True
    then show ?thesis
      using f ad rs' tr' by (simp add: Play_iteration_def Let_def)
  next
    case False
    with bm obtain j where j: "j < ?n" "rs' ! j = UNDECIDED" "\<forall>l<j. rs' ! l \<noteq> UNDECIDED"
      "bm = blacks_turn env (?ts ! j)" by blast
    have bm': "bm = due_side env st"
      using find_first_upt[of j ?n "\<lambda>i. scan_all env st ! i = UNDECIDED"] j rs'
      by (simp add: due_side_def)
    let ?P = "due env (scan_all env st) (due_side env st) ?ts"
    let ?D = "due_list env st"
    let ?idx = "if due_side env st then 1 else 0 :: nat"
    let ?pe1 = "Reset (due_player env st)"
    let ?ts2 = "map (\<lambda>i. if i < ?n \<and> ?P i then with_edges env (?ts ! i) else ?ts ! i) [0..<?n]"
    let ?tr2 = "(probe_calls env st @ [EvReset ?idx]) @ gather_calls 0 ?D"
    have g: "fold (gather_step env (scan_all env st) (due_side env st)) [0..<?n]
               (?ts, ?pe1, probe_calls env st @ [EvReset ?idx]) =
             (?ts2, gathered env ?pe1 ?ts ?D, ?tr2)"
      using gather_fold[of ?n ?ts env "scan_all env st" "due_side env st" ?pe1
                           "probe_calls env st @ [EvReset ?idx]"]
      by (simp add: due_list_def Reset_def)
    have n2: "?n = length ?ts2" by simp
    have P2: "filter (due env (scan_all env st) (due_side env st) ?ts2) [0..<?n] = ?D"
      unfolding due_list_def
      by (rule filter_cong) (auto simp: due_def blacks_turn_def history_with_edges)
    have out: "comp_outputs (batch env st) =
        Some (comp_network (gathered env ?pe1 ?ts ?D) (comp_inputs (gathered env ?pe1 ?ts ?D)))"
      by (simp add: batch_def Run_def)
    have ci: "comp_idx (batch env st) = 0"
      by (simp add: batch_def Run_def gathered_def Reset_def)
    have lt: "length (transforms (batch env st)) = length ?D"
      by (simp add: batch_def Run_def gathered_def Reset_def)
    have le: "comp_idx (batch env st) +
          length (filter (due env (scan_all env st) (due_side env st) ?ts2) [0..<length ?ts2])
          \<le> length (transforms (batch env st))"
      using P2 ci lt by simp
    have ts3: "map (\<lambda>i. if i < length ?ts2 \<and> due env (scan_all env st) (due_side env st) ?ts2 i
                     then MakeMove env (?ts2 ! i)
                            (chosen_move env
                               (at_slot (batch env st) (comp_idx (batch env st) +
                                  slot_of (due env (scan_all env st) (due_side env st) ?ts2) i))
                               (?ts2 ! i))
                     else ?ts2 ! i)
               [0..<length ?ts2] = moved_trees env st"
    proof -
      have s: "\<And>i. i < ?n \<Longrightarrow>
          slot_of (due env (scan_all env st) (due_side env st) ?ts2) i = slot_of ?P i"
        unfolding slot_of_def
        by (rule arg_cong[where f = length], rule filter_cong)
           (auto simp: due_def blacks_turn_def history_with_edges)
      have d: "\<And>i. i < ?n \<Longrightarrow> due env (scan_all env st) (due_side env st) ?ts2 i = ?P i"
        by (auto simp: due_def blacks_turn_def history_with_edges)
      show ?thesis
        unfolding moved_trees_def
        by (rule nth_equalityI) (simp_all add: s d ci)
    qed
    have m: "fold (\<lambda>i acc. Option.bind acc (move_step env (scan_all env st) (due_side env st) i))
               [0..<?n] (Some (?ts2, batch env st, ?tr2 @ [EvRun])) =
             Some (moved_trees env st, at_slot (batch env st) (length ?D),
                   (?tr2 @ [EvRun]) @ move_calls 0 ?D)"
      using move_fold[of "length ?ts2" ?ts2 "batch env st" _ env "scan_all env st"
                         "due_side env st" "?tr2 @ [EvRun]", OF _ out le]
      unfolding ts3 using P2 ci by simp
    have pl: "(if (if due_side env st then 1 else 0 :: nat) = 0 then fst (options st)
               else snd (options st)) = due_player env st"
      by (simp add: due_player_def)
    show ?thesis
      using False ad rs' tr' bm' f g m pl
      by (simp add: Play_iteration_def batch_def Let_def)
  qed
qed

lemmas float_defs = float_ge_def float_isnan_def float_key_def float_magnitude_def float_lowest_def

lemma toy_tree_score:
  "MakeBestMove toy_rules (toy_batch toy_white) toy_tree =
     Some ((toy_batch toy_white)\<lparr>comp_idx := 1\<rparr>, \<lparr>history = [7], head_edges = []\<rparr>)"
  by (simp add: MakeBestMove_def toy_batch_def toy_tree_def toy_rules_def toy_white_def Run_def
        Gather_def Reset_def edge_score_def GetPVal_def float_defs)

lemma toy_iteration:
  "map_option (\<lambda>(ex, (st, pe), tr). (ex, results st, trees st, tr, comp_idx pe, transforms pe))
     (Play_iteration toy_rules (toy_games, ev)) =
   Some (Continue,
         [WHITE_WON, UNDECIDED, UNDECIDED, UNDECIDED, DRAW, BLACK_WON],
         [\<lparr>history = [0, 0, 0, 0], head_edges = []\<rparr>,
          \<lparr>history = [105, 0, 0, 0, 0, 0], head_edges = []\<rparr>,
          \<lparr>history = [0, 0], head_edges = []\<rparr>,
          \<lparr>history = [105, 0], head_edges = []\<rparr>,
          \<lparr>history = [0, 0, 0, 0, 0, 0], head_edges = []\<rparr>,
          \<lparr>history = [], head_edges = []\<rparr>],
         [EvProbe 0, EvProbe 1, EvReset 1, EvGather 1 0, EvGather 3 1, EvRun,
          EvMakeBestMove 1 0, EvMakeBestMove 3 1],
         2, [5, 1])"
  by (simp add: Play_iteration_def toy_games_def toy_rules_def toy_tb_def toy_white_def
        toy_black_def resolve_step_def tablebase_result_def gather_step_def move_step_def
        MakeBestMove_def Run_def Gather_def Reset_def CreateEdges_def edge_score_def GetPVal_def
        float_defs Let_def upt_rec[of _ "numeral _"] )

lemma gather_events_append: "gather_events (xs @ ys) = gather_events xs @ gather_events ys"
  by (induction xs rule: gather_events.induct) simp_all

lemma move_events_append: "move_events (xs @ ys) = move_events xs @ move_events ys"
  by (induction xs rule: move_events.induct) simp_all

lemma reset_events_append: "reset_events (xs @ ys) = reset_events xs @ reset_events ys"
  by (induction xs rule: reset_events.induct) simp_all

lemma in_gather_events: "(i, s) \<in> set (gather_events es) \<longleftrightarrow> EvGather i s \<in> set es"
  by (induction es rule: gather_events.induct) auto

lemma in_move_events: "(i, s) \<in> set (move_events es) \<longleftrightarrow> EvMakeBestMove i s \<in> set es"
  by (induction es rule: move_events.induct) auto

lemma in_reset_events: "idx \<in> set (reset_events es) \<longleftrightarrow> EvReset idx \<in> set es"
  by (induction es rule: reset_events.induct) auto

lemma scan_probes_cases:
  "scan_probes env tb i tree r = [] \<or> scan_probes env tb i tree r = [EvProbe i]"
  by (auto simp: scan_probes_def tablebase_result_def Let_def split: option.splits prod.splits)

lemma probe_calls_only_probes:
  assumes "e \<in> set (probe_calls env st)"
  shows "\<exists>i. e = EvProbe i"
proof -
  from assms obtain i where
    "e \<in> set (scan_probes env (syzygy_tb st) i (trees st ! i) (results st ! i))"
    by (auto simp: probe_calls_def)
  then show ?thesis
    using scan_probes_cases[of env "syzygy_tb st" i "trees st ! i" "results st ! i"] by auto
qed

lemma only_probes_events:
  assumes "\<And>e. e \<in> set es \<Longrightarrow> \<exists>i. e = EvProbe i"
  shows "gather_events es = [] \<and> move_events es = [] \<and> reset_events es = []"
  using assms
proof (induction es)
  case Nil
  show ?case by simp
next
  case (Cons e es)
  from Cons.prems[of e] obtain i where "e = EvProbe i" by auto
  moreover have "gather_events es = [] \<and> move_events es = [] \<and> reset_events es = []"
    using Cons.IH Cons.prems by simp
  ultimately show ?case by simp
qed

lemmas probe_calls_events = only_probes_events[OF probe_calls_only_probes]

lemma events_gather_calls:
  "gather_events (gather_calls s is) = map (\<lambda>(slot, i). (i, slot)) (enumerate s is)"
  "move_events (gather_calls s is) = []"
  "reset_events (gather_calls s is) = []"
  by (induction "is" arbitrary: s) (simp_all add: gather_calls_def)

lemma events_move_calls:
  "move_events (move_calls s is) = map (\<lambda>(slot, i). (i, slot)) (enumerate s is)"
  "gather_events (move_calls s is) = []"
  "reset_events (move_calls s is) = []"
  by (induction "is" arbitrary: s) (simp_all add: move_calls_def)

lemma iteration_trace_events:
  "gather_events (iteration_trace env st) =
     map (\<lambda>(slot, i). (i, slot)) (enumerate 0 (due_list env st))"
  "move_events (iteration_trace env st) =
     map (\<lambda>(slot, i). (i, slot)) (enumerate 0 (due_list env st))"
  "reset_events (iteration_trace env st) = [if due_side env st then 1 else 0]"
  by (simp_all add: iteration_trace_def gather_events_append move_events_append
        reset_events_append probe_calls_events events_gather_calls events_move_calls)

lemma slot_of_filter_nth:
  "s < length (filter P [0..<n]) \<Longrightarrow> slot_of P (filter P [0..<n] ! s) = s"
proof (induction n)
  case 0
  then show ?case by simp
next
  case (Suc n)
  show ?case
  proof (cases "s < length (filter P [0..<n])")
    case True
    then show ?thesis using Suc.IH by (simp add: nth_append)
  next
    case False
    with Suc.prems have "P n" "s = length (filter P [0..<n])"
      by (auto split: if_splits)
    then show ?thesis by (simp add: nth_append slot_of_def)
  qed
qed

lemma in_enumerated:
  "(i, s) \<in> set (map (\<lambda>(slot, i). (i, slot)) (enumerate 0 xs)) \<longleftrightarrow> s < length xs \<and> xs ! s = i"
  by (auto simp: in_set_enumerate_eq)

lemma length_scan_all: "length (scan_all env st) = length (trees st)"
  by (simp add: scan_all_def)

lemma scan_all_nth:
  "i < length (trees st) \<Longrightarrow>
   scan_all env st ! i = scan_result env (syzygy_tb st) i (trees st ! i) (results st ! i)"
  by (simp add: scan_all_def)

lemma in_due_list:
  "i \<in> set (due_list env st) \<longleftrightarrow>
   i < length (trees st) \<and> scan_all env st ! i = UNDECIDED \<and>
   blacks_turn env (trees st ! i) = due_side env st"
  by (auto simp: due_list_def due_def)

lemma moved_trees_nth:
  "i < length (trees st) \<Longrightarrow>
   moved_trees env st ! i =
     (if i \<in> set (due_list env st)
      then MakeMove env (with_edges env (trees st ! i))
             (chosen_move env
                (at_slot (batch env st)
                   (slot_of (due env (scan_all env st) (due_side env st) (trees st)) i))
                (with_edges env (trees st ! i)))
      else trees st ! i)"
  by (simp add: moved_trees_def due_list_def)

lemma batch_simps:
  "comp_idx (batch env st) = 0"
  "transforms (batch env st) =
     map (\<lambda>i. snd (EncodePositionForNN env (capabilities_input_format (due_player env st))
                     (history (trees st ! i)))) (due_list env st)"
  "comp_inputs (batch env st) =
     map (\<lambda>i. fst (EncodePositionForNN env (capabilities_input_format (due_player env st))
                     (history (trees st ! i)))) (due_list env st)"
  "input_format (batch env st) = capabilities_input_format (due_player env st)"
  "comp_network (batch env st) = network (due_player env st)"
  "comp_outputs (batch env st) = Some (network (due_player env st) (comp_inputs (batch env st)))"
  by (simp_all add: batch_def Run_def gathered_def Reset_def)

lemma due_side_first:
  assumes "j < length (trees st)" "scan_all env st ! j = UNDECIDED"
      and "\<forall>l<j. scan_all env st ! l \<noteq> UNDECIDED"
  shows "due_side env st = blacks_turn env (trees st ! j)"
  using find_first_upt[of j "length (trees st)" "\<lambda>i. scan_all env st ! i = UNDECIDED"] assms
  by (simp add: due_side_def)

lemma Play_iteration_Break:
  assumes "length (results st) = length (trees st)"
      and "\<forall>i<length (trees st). scan_all env st ! i \<noteq> UNDECIDED"
  shows "Play_iteration env (st, ev) =
         Some (Break, (st\<lparr>results := scan_all env st\<rparr>, ev), probe_calls env st)"
  using assms by (simp add: Play_iteration_eq)

lemma Play_iteration_Continue:
  assumes "length (results st) = length (trees st)"
      and "\<not> (\<forall>i<length (trees st). scan_all env st ! i \<noteq> UNDECIDED)"
  shows "Play_iteration env (st, ev) =
         Some (Continue,
               (st\<lparr>results := scan_all env st, trees := moved_trees env st\<rparr>,
                at_slot (batch env st) (length (due_list env st))),
               iteration_trace env st)"
  using assms by (simp add: Play_iteration_eq iteration_trace_def)

lemma toy_batch_simps:
  "comp_idx (toy_batch p) = 0"
  "transforms (toy_batch p) = [0]"
  "comp_outputs (toy_batch p) = Some (network p [capabilities_input_format p])"
  by (simp_all add: toy_batch_def Run_def Gather_def Reset_def toy_rules_def toy_tree_def)

lemma toy_policy:
  "edge_policy toy_rules (toy_batch p) out e = out 0 e"
  by (simp add: edge_policy_def toy_batch_simps toy_rules_def)

lemma tablebase_result_decided:
  "fst (tablebase_result env tb i tree) = Some r \<Longrightarrow> r \<noteq> UNDECIDED"
  by (auto simp: tablebase_result_def Let_def split: option.splits if_splits prod.splits)

lemma scan_result_keeps:
  "r \<noteq> UNDECIDED \<Longrightarrow> scan_result env tb i tree r = r"
  by (simp add: scan_result_def)

lemma scan_result_undecided:
  assumes "scan_result env tb i tree r = UNDECIDED"
  shows "r = UNDECIDED \<and> ComputeGameResult env (history tree) = UNDECIDED \<and>
         fst (tablebase_result env tb i tree) = None"
  using assms tablebase_result_decided[of env tb i tree]
  by (auto simp: scan_result_def split: if_splits option.splits)

lemma length_moved_trees: "length (moved_trees env st) = length (trees st)"
  by (simp add: moved_trees_def)

lemma moved_trees_no_due:
  assumes "due_list env st = []"
  shows "moved_trees env st = trees st"
proof (rule nth_equalityI)
  show "length (moved_trees env st) = length (trees st)" by (rule length_moved_trees)
next
  fix i
  assume "i < length (moved_trees env st)"
  then have "i < length (trees st)" by (simp add: length_moved_trees)
  then show "moved_trees env st ! i = trees st ! i"
    using assms by (simp add: moved_trees_nth)
qed

lemma due_list_all_decided:
  "\<forall>i<length (trees st). scan_all env st ! i \<noteq> UNDECIDED \<Longrightarrow> due_list env st = []"
  by (auto simp: due_list_def due_def filter_empty_conv)

lemma Play_iteration_summary:
  assumes wf: "length (results st) = length (trees st)"
  obtains ex st' pe' trace where
    "Play_iteration env (st, ev) = Some (ex, (st', pe'), trace)"
    "results st' = scan_all env st"
    "trees st' = moved_trees env st"
    "options st' = options st" "syzygy_tb st' = syzygy_tb st" "abort st' = abort st"
    "ex = Break \<longleftrightarrow> (\<forall>i<length (trees st). scan_all env st ! i \<noteq> UNDECIDED)"
    "set (probe_calls env st) \<subseteq> set trace"
    "gather_events trace = map (\<lambda>(slot, i). (i, slot)) (enumerate 0 (due_list env st))"
    "move_events trace = map (\<lambda>(slot, i). (i, slot)) (enumerate 0 (due_list env st))"
    "reset_events trace = (if ex = Continue then [if due_side env st then 1 else 0] else [])"
    "ex = Continue \<longrightarrow> pe' = at_slot (batch env st) (length (due_list env st))"
    "ex = Break \<longrightarrow> pe' = ev"
proof (cases "\<forall>i<length (trees st). scan_all env st ! i \<noteq> UNDECIDED")
  case True
  have D: "due_list env st = []" using True by (rule due_list_all_decided)
  show ?thesis
    by (rule that[OF Play_iteration_Break[OF wf True]])
       (simp_all add: moved_trees_no_due[OF D] D True probe_calls_events)
next
  case False
  show ?thesis
    by (rule that[OF Play_iteration_Continue[OF wf False]])
       (simp_all add: False iteration_trace_events, auto simp: iteration_trace_def)
qed

lemma gathered_iff_due:
  assumes "gather_events trace = map (\<lambda>(slot, i). (i, slot)) (enumerate 0 D)"
  shows "(\<exists>s. EvGather i s \<in> set trace) \<longleftrightarrow> i \<in> set D"
proof -
  have "\<And>s. EvGather i s \<in> set trace \<longleftrightarrow> s < length D \<and> D ! s = i"
    unfolding in_gather_events[symmetric] assms in_enumerated ..
  then show ?thesis by (auto simp: in_set_conv_nth)
qed

lemma moved_iff_due:
  assumes "move_events trace = map (\<lambda>(slot, i). (i, slot)) (enumerate 0 D)"
  shows "(\<exists>s. EvMakeBestMove i s \<in> set trace) \<longleftrightarrow> i \<in> set D"
proof -
  have "\<And>s. EvMakeBestMove i s \<in> set trace \<longleftrightarrow> s < length D \<and> D ! s = i"
    unfolding in_move_events[symmetric] assms in_enumerated ..
  then show ?thesis by (auto simp: in_set_conv_nth)
qed

lemma probe_in_calls:
  assumes "i < length (trees st)" "scan_probes env (syzygy_tb st) i (trees st ! i) (results st ! i) = [EvProbe i]"
  shows "EvProbe i \<in> set (probe_calls env st)"
  using assms by (auto simp: probe_calls_def intro!: bexI[of _ i])

lemma called_iff_due:
  assumes "gather_events trace = map (\<lambda>(slot, i). (i, slot)) (enumerate 0 D)"
      and "move_events trace = map (\<lambda>(slot, i). (i, slot)) (enumerate 0 D)"
  shows "(\<exists>s. EvGather i s \<in> set trace \<and> EvMakeBestMove i s \<in> set trace) \<longleftrightarrow> i \<in> set D"
proof -
  have g: "\<And>s. EvGather i s \<in> set trace \<longleftrightarrow> s < length D \<and> D ! s = i"
    unfolding in_gather_events[symmetric] assms(1) in_enumerated ..
  have m: "\<And>s. EvMakeBestMove i s \<in> set trace \<longleftrightarrow> s < length D \<and> D ! s = i"
    unfolding in_move_events[symmetric] assms(2) in_enumerated ..
  show ?thesis unfolding g m by (auto simp: in_set_conv_nth)
qed

lemma parity_index: "(if (n::nat) mod 2 = 1 then 1 else 0) = n mod 2"
  by presburger

lemma parity_matches: "((n::nat) mod 2 = 1) = b \<longleftrightarrow> n mod 2 = (if b then 1 else 0)"
  by (cases b) presburger+

lemma fold_add_opening:
  "results (fold (add_opening env) ops st) = results st @ replicate (length ops) UNDECIDED \<and>
   length (trees (fold (add_opening env) ops st)) = length (trees st) + length ops"
proof (induction ops arbitrary: st)
  case Nil
  show ?case by simp
next
  case (Cons a ops)
  show ?case
    using Cons.IH[of "add_opening env a st"]
    by (simp add: add_opening_def replicate_app_Cons_same)
qed

lemma iteration_keeps_results:
  assumes wf: "length (results st) = length (trees st)"
      and it: "Play_iteration env (st, ev) = Some (ex, (st', pe'), trace)"
  shows "length (results st') = length (trees st') \<and> length (trees st') = length (trees st) \<and>
         (\<forall>i<length (trees st). results st ! i \<noteq> UNDECIDED \<longrightarrow> results st' ! i = results st ! i)"
proof -
  from wf obtain ex2 st2 pe2 trace2 where
    it2: "Play_iteration env (st, ev) = Some (ex2, (st2, pe2), trace2)"
    and res: "results st2 = scan_all env st"
    and trs: "trees st2 = moved_trees env st"
    by (rule Play_iteration_summary)
  from it it2 have "st' = st2" by simp
  then show ?thesis
    using res trs
    by (simp add: length_scan_all length_moved_trees scan_all_nth scan_result_keeps)
qed

lemma Play_loop_keeps_results:
  assumes "Play_loop env abort_calls k s trace = Some y"
  shows "length (results (fst s)) = length (trees (fst s)) \<longrightarrow>
         length (results (fst (fst y))) = length (trees (fst (fst y))) \<and>
         length (trees (fst (fst y))) = length (trees (fst s)) \<and>
         (\<forall>i<length (trees (fst s)). results (fst s) ! i \<noteq> UNDECIDED \<longrightarrow>
            results (fst (fst y)) ! i = results (fst s) ! i)"
proof (rule Play_loop.raw_induct[where P = "\<lambda>env abort_calls k s trace y.
         length (results (fst s)) = length (trees (fst s)) \<longrightarrow>
         length (results (fst (fst y))) = length (trees (fst (fst y))) \<and>
         length (trees (fst (fst y))) = length (trees (fst s)) \<and>
         (\<forall>i<length (trees (fst s)). results (fst s) ! i \<noteq> UNDECIDED \<longrightarrow>
            results (fst (fst y)) ! i = results (fst s) ! i)", OF _ assms])
  fix Play_loop :: "('a, 'b, 'c) rules \<Rightarrow> (nat \<Rightarrow> bool) \<Rightarrow> nat \<Rightarrow>
      ('a, 'b, 'c) MultiSelfPlayGames \<times> 'c PolicyEvaluator \<Rightarrow> event list \<Rightarrow>
      ((('a, 'b, 'c) MultiSelfPlayGames \<times> 'c PolicyEvaluator) \<times> event list) option"
    and env abort_calls k s trace y
  assume IH: "\<And>env abort_calls k s trace y.
        Play_loop env abort_calls k s trace = Some y \<Longrightarrow>
         length (results (fst s)) = length (trees (fst s)) \<longrightarrow>
         length (results (fst (fst y))) = length (trees (fst (fst y))) \<and>
         length (trees (fst (fst y))) = length (trees (fst s)) \<and>
         (\<forall>i<length (trees (fst s)). results (fst s) ! i \<noteq> UNDECIDED \<longrightarrow>
            results (fst (fst y)) ! i = results (fst s) ! i)"
    and hyps: "(let s1 = if abort_calls k then (Abort (fst s), snd s) else s
      in if abort (fst s1) then Some (s1, trace)
         else case Play_iteration env s1 of None \<Rightarrow> None
              | Some (Break, s2, calls) \<Rightarrow> Some (s2, trace @ calls)
              | Some (Continue, s2, calls) \<Rightarrow>
                  Play_loop env abort_calls (k + 1) s2 (trace @ calls)) =
     Some y"
  let ?s1 = "if abort_calls k then (Abort (fst s), snd s) else s"
  have s1: "results (fst ?s1) = results (fst s)" "trees (fst ?s1) = trees (fst s)"
    by (simp_all add: Abort_def)
  show "length (results (fst s)) = length (trees (fst s)) \<longrightarrow>
         length (results (fst (fst y))) = length (trees (fst (fst y))) \<and>
         length (trees (fst (fst y))) = length (trees (fst s)) \<and>
         (\<forall>i<length (trees (fst s)). results (fst s) ! i \<noteq> UNDECIDED \<longrightarrow>
            results (fst (fst y)) ! i = results (fst s) ! i)"
  proof (cases "abort (fst ?s1)")
    case True
    with hyps have "y = (?s1, trace)" by (simp add: Let_def)
    then show ?thesis using s1 by (auto simp: Abort_def)
  next
    case False
    show ?thesis
    proof (intro impI)
      assume wf: "length (results (fst s)) = length (trees (fst s))"
      then have wf1: "length (results (fst ?s1)) = length (trees (fst ?s1))"
        using s1 by simp
      from hyps False obtain ex s2 calls where
        it: "Play_iteration env ?s1 = Some (ex, s2, calls)"
        by (auto simp: Let_def split: option.splits)
      from iteration_keeps_results[OF wf1, of env "snd ?s1" ex "fst s2" "snd s2" calls] it
      have k2: "length (results (fst s2)) = length (trees (fst s2))"
        "length (trees (fst s2)) = length (trees (fst s))"
        "\<forall>i<length (trees (fst s)). results (fst s) ! i \<noteq> UNDECIDED \<longrightarrow>
            results (fst s2) ! i = results (fst s) ! i"
        using s1 by simp_all
      show "length (results (fst (fst y))) = length (trees (fst (fst y))) \<and>
         length (trees (fst (fst y))) = length (trees (fst s)) \<and>
         (\<forall>i<length (trees (fst s)). results (fst s) ! i \<noteq> UNDECIDED \<longrightarrow>
            results (fst (fst y)) ! i = results (fst s) ! i)"
      proof (cases ex)
        case Break
        with hyps False it have "y = (s2, trace @ calls)" by (simp add: Let_def)
        then show ?thesis using k2 by simp
      next
        case Continue
        with hyps False it have "Play_loop env abort_calls (k + 1) s2 (trace @ calls) = Some y"
          by (simp add: Let_def)
        from IH[OF this] k2(1)
        have "length (results (fst (fst y))) = length (trees (fst (fst y))) \<and>
         length (trees (fst (fst y))) = length (trees (fst s2)) \<and>
         (\<forall>i<length (trees (fst s2)). results (fst s2) ! i \<noteq> UNDECIDED \<longrightarrow>
            results (fst (fst y)) ! i = results (fst s2) ! i)"
          by simp
        then show ?thesis using k2 by auto
      qed
    qed
  qed
qed

lemma toy_endgame_iteration:
  "Play_iteration toy_rules (toy_endgame, ev) =
   Some (Break, (toy_endgame\<lparr>results := [DRAW, WHITE_WON, BLACK_WON]\<rparr>, ev), [EvProbe 1])"
  by (simp add: Play_iteration_def toy_endgame_def toy_rules_def toy_tb_def
        resolve_step_def tablebase_result_def Let_def upt_rec[of _ "numeral _"])

lemma toy_endgame_Play:
  "Play toy_rules (\<lambda>k. False) ev toy_endgame =
   Some ((toy_endgame\<lparr>results := [DRAW, WHITE_WON, BLACK_WON]\<rparr>, ev), [EvProbe 1])"
proof -
  have "abort toy_endgame = False" by (simp add: toy_endgame_def)
  then show ?thesis
    unfolding Play_def
    by (subst Play_loop.simps) (simp add: toy_endgame_iteration)
qed

lemma toy_games_simps:
  "length (results toy_games) = length (trees toy_games)"
  "length (trees toy_games) = 6"
  "syzygy_tb toy_games = Some toy_tb"
  "options toy_games = (toy_white, toy_black)"
  "results toy_games = [UNDECIDED, UNDECIDED, UNDECIDED, UNDECIDED, UNDECIDED, BLACK_WON]"
  "map history (trees toy_games) =
     [[0, 0, 0, 0], [0, 0, 0, 0, 0], [0, 0], [0], [0, 0, 0, 0, 0, 0], []]"
  by (simp_all add: toy_games_def)

lemma toy_games_history:
  "history (trees toy_games ! 0) = [0, 0, 0, 0]"
  "history (trees toy_games ! 1) = [0, 0, 0, 0, 0]"
  "history (trees toy_games ! Suc 0) = [0, 0, 0, 0, 0]"
  "history (trees toy_games ! 2) = [0, 0]"
  "history (trees toy_games ! 3) = [0]"
  "history (trees toy_games ! 4) = [0, 0, 0, 0, 0, 0]"
  by (simp_all add: toy_games_def)

lemma chosen_move_char:
  assumes "comp_idx pe < length (transforms pe)" and "comp_outputs pe = Some out"
  shows "if \<exists>e\<in>set (head_edges tree). float_ge (edge_policy env pe out e) float_lowest
         then \<exists>pre e post.
                head_edges tree = pre @ e # post \<and>
                chosen_move env pe tree = GetMove env e (IsBlackToMove env (history tree)) \<and>
                (\<forall>x\<in>set (head_edges tree).
                   \<not> float_isnan (edge_policy env pe out x) \<longrightarrow>
                   float_ge (edge_policy env pe out e) (edge_policy env pe out x)) \<and>
                (\<forall>x\<in>set post.
                   \<not> float_ge (edge_policy env pe out x) (edge_policy env pe out e))
         else chosen_move env pe tree = default_Move env"
proof (cases "\<exists>e\<in>set (head_edges tree). float_ge (edge_policy env pe out e) float_lowest")
  case True
  have sc: "\<And>e. edge_score env pe e = Some (edge_policy env pe out e)"
    by (rule edge_score_Some[OF assms])
  from best_loop_some_ge[where sc = "edge_policy env pe out", OF sc float_lowest_not_nan True,
         of "history tree" "default_Move env"]
  obtain pre e post where
    e: "head_edges tree = pre @ e # post"
    "best_loop env pe (history tree) (head_edges tree) (float_lowest, default_Move env) =
       Some (edge_policy env pe out e, GetMove env e (IsBlackToMove env (history tree)))"
    "\<forall>x\<in>set (head_edges tree). \<not> float_isnan (edge_policy env pe out x) \<longrightarrow>
        float_ge (edge_policy env pe out e) (edge_policy env pe out x)"
    "\<forall>x\<in>set post. \<not> float_ge (edge_policy env pe out x) (edge_policy env pe out e)"
    by blast
  have "chosen_move env pe tree = GetMove env e (IsBlackToMove env (history tree))"
    using e(2) by (simp add: chosen_move_def)
  with e(1,3,4) have "\<exists>pre e post.
                head_edges tree = pre @ e # post \<and>
                chosen_move env pe tree = GetMove env e (IsBlackToMove env (history tree)) \<and>
                (\<forall>x\<in>set (head_edges tree).
                   \<not> float_isnan (edge_policy env pe out x) \<longrightarrow>
                   float_ge (edge_policy env pe out e) (edge_policy env pe out x)) \<and>
                (\<forall>x\<in>set post.
                   \<not> float_ge (edge_policy env pe out x) (edge_policy env pe out e))"
    by blast
  then show ?thesis unfolding if_P[OF True] .
next
  case False
  have sc: "\<And>e. edge_score env pe e = Some (edge_policy env pe out e)"
    by (rule edge_score_Some[OF assms])
  have "best_loop env pe (history tree) (head_edges tree) (float_lowest, default_Move env) =
          Some (float_lowest, default_Move env)"
    using best_loop_none_ge[where sc = "edge_policy env pe out", OF sc] False by blast
  then have "chosen_move env pe tree = default_Move env"
    by (simp add: chosen_move_def)
  then show ?thesis unfolding if_not_P[OF False] .
qed

lemma toy_pair_iteration:
  "map_option (\<lambda>(ex, (st, pe), tr). (ex, trees st, tr, transforms pe, comp_inputs pe))
     (Play_iteration toy_rules_transformed (toy_pair, ev)) =
   Some (Continue,
         [\<lparr>history = [5], head_edges = []\<rparr>, \<lparr>history = [7, 0, 0], head_edges = []\<rparr>],
         [EvReset 0, EvGather 0 0, EvGather 1 1, EvRun, EvMakeBestMove 0 0, EvMakeBestMove 1 1],
         [0, 2], [1, 3])"
  by (simp add: Play_iteration_def toy_pair_def toy_rules_transformed_def toy_rules_def
        toy_slot_player_def resolve_step_def tablebase_result_def gather_step_def move_step_def
        MakeBestMove_def Run_def Gather_def Reset_def CreateEdges_def edge_score_def GetPVal_def
        float_defs Let_def upt_rec[of _ "numeral _"])

section \<open>The claims\<close>

text \<open>
  C1. In one iteration of \<open>Play\<close> (which always completes), the sessions passed to
  \<open>Gather\<close> are, element for element and in the same order, the sessions passed to
  \<open>MakeBestMove\<close>, and both carry the same batch slots, which count up from zero. When the
  evaluator was used, its cursor ends at the number of calls, the batch was computed from
  the gathered inputs, and for the session gathered into a slot:
  the transform log and the batch hold at that slot the transform and the input encoded
  from that session; the tree of the session is the one \<open>MakeBestMove\<close> returns with the
  cursor at that slot, which it leaves advanced by one; and the move applied to that tree
  is chosen by the scores the batch outputs hold at that very slot, each legal move indexed
  under the transform encoded from that very session: the last legal move with the maximal
  such score, or the default-constructed move when no such score compares \<open>>=\<close> with
  \<open>lowest()\<close>.
\<close>

theorem gather_order_is_move_order:
  assumes wf: "length (results st) = length (trees st)"
  shows "\<exists>ex st' pe' trace.
     Play_iteration env (st, ev) = Some (ex, (st', pe'), trace) \<and>
     move_events trace = gather_events trace \<and>
     map snd (gather_events trace) = [0..<length (gather_events trace)] \<and>
     (ex = Continue \<longrightarrow>
        comp_idx pe' = length (move_events trace) \<and>
        length (transforms pe') = length (gather_events trace) \<and>
        length (comp_inputs pe') = length (gather_events trace) \<and>
        comp_outputs pe' = Some (comp_network pe' (comp_inputs pe')) \<and>
        (\<forall>(i, slot) \<in> set (gather_events trace).
           i < length (trees st) \<and>
           transforms pe' ! slot =
             snd (EncodePositionForNN env (input_format pe') (history (trees st ! i))) \<and>
           comp_inputs pe' ! slot =
             fst (EncodePositionForNN env (input_format pe') (history (trees st ! i))) \<and>
           MakeBestMove env (pe'\<lparr>comp_idx := slot\<rparr>)
             (CreateEdges (trees st ! i) (GenerateLegalMoves env (history (trees st ! i)))) =
           Some (pe'\<lparr>comp_idx := slot + 1\<rparr>, trees st' ! i) \<and>
           (if \<exists>e\<in>set (GenerateLegalMoves env (history (trees st ! i))).
                 float_ge
                   (slot_score env (comp_network pe' (comp_inputs pe')) slot
                      (snd (EncodePositionForNN env (input_format pe') (history (trees st ! i)))) e)
                   float_lowest
            then \<exists>pre e post.
                   GenerateLegalMoves env (history (trees st ! i)) = pre @ e # post \<and>
                   trees st' ! i =
                     MakeMove env
                       (CreateEdges (trees st ! i)
                          (GenerateLegalMoves env (history (trees st ! i))))
                       (GetMove env e (IsBlackToMove env (history (trees st ! i)))) \<and>
                   (\<forall>x\<in>set (GenerateLegalMoves env (history (trees st ! i))).
                      \<not> float_isnan
                          (slot_score env (comp_network pe' (comp_inputs pe')) slot
                             (snd (EncodePositionForNN env (input_format pe')
                                     (history (trees st ! i)))) x) \<longrightarrow>
                      float_ge
                        (slot_score env (comp_network pe' (comp_inputs pe')) slot
                           (snd (EncodePositionForNN env (input_format pe')
                                   (history (trees st ! i)))) e)
                        (slot_score env (comp_network pe' (comp_inputs pe')) slot
                           (snd (EncodePositionForNN env (input_format pe')
                                   (history (trees st ! i)))) x)) \<and>
                   (\<forall>x\<in>set post.
                      \<not> float_ge
                          (slot_score env (comp_network pe' (comp_inputs pe')) slot
                             (snd (EncodePositionForNN env (input_format pe')
                                     (history (trees st ! i)))) x)
                          (slot_score env (comp_network pe' (comp_inputs pe')) slot
                             (snd (EncodePositionForNN env (input_format pe')
                                     (history (trees st ! i)))) e))
            else trees st' ! i =
                   MakeMove env
                     (CreateEdges (trees st ! i)
                        (GenerateLegalMoves env (history (trees st ! i))))
                     (default_Move env))))"
proof (cases "\<forall>i<length (trees st). scan_all env st ! i \<noteq> UNDECIDED")
  case True
  have "Play_iteration env (st, ev) =
        Some (Break, (st\<lparr>results := scan_all env st\<rparr>, ev), probe_calls env st)"
    using wf True by (rule Play_iteration_Break)
  moreover have "move_events (probe_calls env st) = gather_events (probe_calls env st)"
    "map snd (gather_events (probe_calls env st)) =
       [0..<length (gather_events (probe_calls env st))]"
    by (simp_all add: probe_calls_events)
  ultimately show ?thesis by blast
next
  case False
  let ?D = "due_list env st"
  let ?pe = "at_slot (batch env st) (length ?D)"
  let ?st = "st\<lparr>results := scan_all env st, trees := moved_trees env st\<rparr>"
  let ?tr = "iteration_trace env st"
  let ?out = "comp_network ?pe (comp_inputs ?pe)"
  have it: "Play_iteration env (st, ev) = Some (Continue, (?st, ?pe), ?tr)"
    using wf False by (rule Play_iteration_Continue)
  have a: "move_events ?tr = gather_events ?tr"
    by (simp add: iteration_trace_events)
  have b: "map snd (gather_events ?tr) = [0..<length (gather_events ?tr)]"
    by (simp add: iteration_trace_events enumerate_eq_zip comp_def case_prod_unfold)
  have c: "comp_idx ?pe = length (move_events ?tr)"
    by (simp add: iteration_trace_events at_slot_simps)
  have d: "length (transforms ?pe) = length (gather_events ?tr)"
    by (simp add: iteration_trace_events at_slot_simps batch_simps)
  have d': "length (comp_inputs ?pe) = length (gather_events ?tr)"
    by (simp add: iteration_trace_events at_slot_simps batch_simps)
  have d'': "comp_outputs ?pe = Some ?out"
    by (simp add: at_slot_simps batch_simps(5,6))
  have e: "\<forall>(i, slot) \<in> set (gather_events ?tr).
           i < length (trees st) \<and>
           transforms ?pe ! slot =
             snd (EncodePositionForNN env (input_format ?pe) (history (trees st ! i))) \<and>
           comp_inputs ?pe ! slot =
             fst (EncodePositionForNN env (input_format ?pe) (history (trees st ! i))) \<and>
           MakeBestMove env (?pe\<lparr>comp_idx := slot\<rparr>)
             (CreateEdges (trees st ! i) (GenerateLegalMoves env (history (trees st ! i)))) =
           Some (?pe\<lparr>comp_idx := slot + 1\<rparr>, trees ?st ! i) \<and>
           (if \<exists>e\<in>set (GenerateLegalMoves env (history (trees st ! i))).
                 float_ge
                   (slot_score env ?out slot
                      (snd (EncodePositionForNN env (input_format ?pe) (history (trees st ! i)))) e)
                   float_lowest
            then \<exists>pre e post.
                   GenerateLegalMoves env (history (trees st ! i)) = pre @ e # post \<and>
                   trees ?st ! i =
                     MakeMove env
                       (CreateEdges (trees st ! i)
                          (GenerateLegalMoves env (history (trees st ! i))))
                       (GetMove env e (IsBlackToMove env (history (trees st ! i)))) \<and>
                   (\<forall>x\<in>set (GenerateLegalMoves env (history (trees st ! i))).
                      \<not> float_isnan
                          (slot_score env ?out slot
                             (snd (EncodePositionForNN env (input_format ?pe)
                                     (history (trees st ! i)))) x) \<longrightarrow>
                      float_ge
                        (slot_score env ?out slot
                           (snd (EncodePositionForNN env (input_format ?pe)
                                   (history (trees st ! i)))) e)
                        (slot_score env ?out slot
                           (snd (EncodePositionForNN env (input_format ?pe)
                                   (history (trees st ! i)))) x)) \<and>
                   (\<forall>x\<in>set post.
                      \<not> float_ge
                          (slot_score env ?out slot
                             (snd (EncodePositionForNN env (input_format ?pe)
                                     (history (trees st ! i)))) x)
                          (slot_score env ?out slot
                             (snd (EncodePositionForNN env (input_format ?pe)
                                     (history (trees st ! i)))) e))
            else trees ?st ! i =
                   MakeMove env
                     (CreateEdges (trees st ! i)
                        (GenerateLegalMoves env (history (trees st ! i))))
                     (default_Move env))"
  proof (clarify)
    fix i slot
    assume "(i, slot) \<in> set (gather_events ?tr)"
    then have "slot < length ?D \<and> ?D ! slot = i"
      unfolding iteration_trace_events(1) in_enumerated .
    then have s: "slot < length ?D" and i: "?D ! slot = i"
      by simp_all
    then have iD: "i \<in> set ?D" by auto
    then have n: "i < length (trees st)" by (simp add: in_due_list)
    let ?h = "history (trees st ! i)"
    let ?L = "GenerateLegalMoves env ?h"
    let ?t = "CreateEdges (trees st ! i) ?L"
    let ?p = "at_slot (batch env st) slot"
    let ?tf = "snd (EncodePositionForNN env (input_format ?pe) ?h)"
    let ?sc = "slot_score env ?out slot ?tf"
    have sl: "slot_of (due env (scan_all env st) (due_side env st) (trees st)) i = slot"
      using slot_of_filter_nth[of slot "due env (scan_all env st) (due_side env st) (trees st)"
              "length (trees st)"] s i
      by (simp add: due_list_def)
    have r: "?pe\<lparr>comp_idx := slot\<rparr> = ?p"
      "?pe\<lparr>comp_idx := slot + 1\<rparr> = ?p\<lparr>comp_idx := comp_idx ?p + 1\<rparr>"
      by (simp_all add: at_slot_def)
    have lt: "comp_idx ?p < length (transforms ?p)"
      using s by (simp add: at_slot_simps batch_simps)
    have out: "comp_outputs ?p = Some ?out"
      by (simp add: at_slot_simps batch_simps(5,6))
    have tfs: "transforms ?pe ! slot = ?tf"
      using s i by (simp add: at_slot_simps batch_simps)
    have ins: "comp_inputs ?pe ! slot = fst (EncodePositionForNN env (input_format ?pe) ?h)"
      using s i by (simp add: at_slot_simps batch_simps)
    have tree: "trees ?st ! i = MakeMove env ?t (chosen_move env ?p ?t)"
      using moved_trees_nth[OF n, of env] iD sl by (simp add: with_edges_def)
    have mv: "MakeBestMove env (?pe\<lparr>comp_idx := slot\<rparr>) ?t =
           Some (?pe\<lparr>comp_idx := slot + 1\<rparr>, trees ?st ! i)"
      unfolding r tree by (rule MakeBestMove_in_range[OF lt out])
    have ep: "\<And>e. edge_policy env ?p ?out e = ?sc e"
      using tfs by (simp add: edge_policy_def slot_score_def at_slot_simps)
    have te: "head_edges ?t = ?L" and th: "history ?t = ?h"
      by (simp_all add: CreateEdges_def)
    note cm = chosen_move_char[OF lt out, of ?t env, unfolded ep te th]
    have sel: "if \<exists>e\<in>set ?L. float_ge (?sc e) float_lowest
            then \<exists>pre e post.
                   ?L = pre @ e # post \<and>
                   trees ?st ! i = MakeMove env ?t (GetMove env e (IsBlackToMove env ?h)) \<and>
                   (\<forall>x\<in>set ?L. \<not> float_isnan (?sc x) \<longrightarrow> float_ge (?sc e) (?sc x)) \<and>
                   (\<forall>x\<in>set post. \<not> float_ge (?sc x) (?sc e))
            else trees ?st ! i = MakeMove env ?t (default_Move env)"
    proof (cases "\<exists>e\<in>set ?L. float_ge (?sc e) float_lowest")
      case True
      from cm[unfolded if_P[OF True]] obtain pre e post where
        "?L = pre @ e # post"
        "chosen_move env ?p ?t = GetMove env e (IsBlackToMove env ?h)"
        "\<forall>x\<in>set ?L. \<not> float_isnan (?sc x) \<longrightarrow> float_ge (?sc e) (?sc x)"
        "\<forall>x\<in>set post. \<not> float_ge (?sc x) (?sc e)"
        by blast
      then have "\<exists>pre e post.
                   ?L = pre @ e # post \<and>
                   trees ?st ! i = MakeMove env ?t (GetMove env e (IsBlackToMove env ?h)) \<and>
                   (\<forall>x\<in>set ?L. \<not> float_isnan (?sc x) \<longrightarrow> float_ge (?sc e) (?sc x)) \<and>
                   (\<forall>x\<in>set post. \<not> float_ge (?sc x) (?sc e))"
        unfolding tree by metis
      then show ?thesis unfolding if_P[OF True] .
    next
      case False
      from cm[unfolded if_not_P[OF False]]
      have "trees ?st ! i = MakeMove env ?t (default_Move env)"
        unfolding tree by simp
      then show ?thesis unfolding if_not_P[OF False] .
    qed
    from n tfs ins mv sel
    show "i < length (trees st) \<and>
           transforms ?pe ! slot = ?tf \<and>
           comp_inputs ?pe ! slot = fst (EncodePositionForNN env (input_format ?pe) ?h) \<and>
           MakeBestMove env (?pe\<lparr>comp_idx := slot\<rparr>) ?t =
             Some (?pe\<lparr>comp_idx := slot + 1\<rparr>, trees ?st ! i) \<and>
           (if \<exists>e\<in>set ?L. float_ge (?sc e) float_lowest
            then \<exists>pre e post.
                   ?L = pre @ e # post \<and>
                   trees ?st ! i = MakeMove env ?t (GetMove env e (IsBlackToMove env ?h)) \<and>
                   (\<forall>x\<in>set ?L. \<not> float_isnan (?sc x) \<longrightarrow> float_ge (?sc e) (?sc x)) \<and>
                   (\<forall>x\<in>set post. \<not> float_ge (?sc x) (?sc e))
            else trees ?st ! i = MakeMove env ?t (default_Move env))"
      by (intro conjI)
  qed
  from it a b c d d' d'' e show ?thesis by blast
qed

text \<open>The theorem on the two concrete instances.\<close>

theorem gather_order_is_move_order_witness:
  "length (results toy_games) = length (trees toy_games) \<and>
   map_option (\<lambda>(ex, s, tr). (gather_events tr, move_events tr))
     (Play_iteration toy_rules (toy_games, Reset toy_white)) =
   Some ([(1, 0), (3, 1)], [(1, 0), (3, 1)]) \<and>
   length (results toy_pair) = length (trees toy_pair) \<and>
   map_option (\<lambda>(ex, (st, pe), tr). (gather_events tr, move_events tr, transforms pe, trees st))
     (Play_iteration toy_rules_transformed (toy_pair, Reset toy_white)) =
   Some ([(0, 0), (1, 1)], [(0, 0), (1, 1)], [0, 2],
         [\<lparr>history = [5], head_edges = []\<rparr>, \<lparr>history = [7, 0, 0], head_edges = []\<rparr>])"
proof -
  have wf: "length (results toy_games) = length (trees toy_games)"
    by (simp add: toy_games_def)
  from gather_order_is_move_order[OF wf, of toy_rules "Reset toy_white"]
  obtain ex st' pe' trace where
    it: "Play_iteration toy_rules (toy_games, Reset toy_white) = Some (ex, (st', pe'), trace)"
    and eq: "move_events trace = gather_events trace"
    by blast
  from it toy_iteration[of "Reset toy_white"]
  have "gather_events trace = [(1, 0), (3, 1)]" by auto
  with it eq have first:
    "map_option (\<lambda>(ex, s, tr). (gather_events tr, move_events tr))
       (Play_iteration toy_rules (toy_games, Reset toy_white)) =
     Some ([(1, 0), (3, 1)], [(1, 0), (3, 1)])"
    by simp
  have wf2: "length (results toy_pair) = length (trees toy_pair)"
    by (simp add: toy_pair_def)
  from gather_order_is_move_order[OF wf2, of toy_rules_transformed "Reset toy_white"]
  obtain ex2 st2 pe2 trace2 where
    it2: "Play_iteration toy_rules_transformed (toy_pair, Reset toy_white) =
            Some (ex2, (st2, pe2), trace2)"
    and eq2: "move_events trace2 = gather_events trace2"
    by blast
  from it2 toy_pair_iteration[of "Reset toy_white"]
  have v: "gather_events trace2 = [(0, 0), (1, 1)]" "transforms pe2 = [0, 2]"
    "trees st2 = [\<lparr>history = [5], head_edges = []\<rparr>, \<lparr>history = [7, 0, 0], head_edges = []\<rparr>]"
    by auto
  with it2 eq2 have second:
    "map_option (\<lambda>(ex, (st, pe), tr). (gather_events tr, move_events tr, transforms pe, trees st))
       (Play_iteration toy_rules_transformed (toy_pair, Reset toy_white)) =
     Some ([(0, 0), (1, 1)], [(0, 0), (1, 1)], [0, 2],
           [\<lparr>history = [5], head_edges = []\<rparr>, \<lparr>history = [7, 0, 0], head_edges = []\<rparr>])"
    by simp
  from wf first wf2 second show ?thesis by simp
qed

text \<open>
  C2, as amended. When the cursor is inside the transform log, the batch has been computed
  and some candidate has a score that compares \<open>>=\<close> with \<open>lowest()\<close> (a score that is neither
  a NaN nor minus infinity), \<open>MakeBestMove\<close> applies the move of a candidate \<open>e\<close> whose score
  is at least every score that is not a NaN, and no candidate enumerated after \<open>e\<close>
  reaches the score of \<open>e\<close>: among the candidates with the maximal score the one
  enumerated last is applied, and never one with a lower score.
\<close>

theorem MakeBestMove_takes_last_maximal:
  assumes "comp_idx pe < length (transforms pe)" and "comp_outputs pe = Some out"
      and "\<exists>e\<in>set (head_edges tree). float_ge (edge_policy env pe out e) float_lowest"
  shows "\<exists>pre e post.
     head_edges tree = pre @ e # post \<and>
     MakeBestMove env pe tree =
       Some (pe\<lparr>comp_idx := comp_idx pe + 1\<rparr>,
             MakeMove env tree (GetMove env e (IsBlackToMove env (history tree)))) \<and>
     (\<forall>x\<in>set (head_edges tree).
        \<not> float_isnan (edge_policy env pe out x) \<longrightarrow>
        float_ge (edge_policy env pe out e) (edge_policy env pe out x)) \<and>
     (\<forall>x\<in>set post. \<not> float_ge (edge_policy env pe out x) (edge_policy env pe out e))"
proof -
  have sc: "\<And>e. edge_score env pe e = Some (edge_policy env pe out e)"
    by (rule edge_score_Some[OF assms(1,2)])
  from best_loop_some_ge[where sc = "edge_policy env pe out", OF sc float_lowest_not_nan assms(3),
         of "history tree" "default_Move env"]
  obtain pre e post where
    e: "head_edges tree = pre @ e # post"
    "best_loop env pe (history tree) (head_edges tree) (float_lowest, default_Move env) =
       Some (edge_policy env pe out e, GetMove env e (IsBlackToMove env (history tree)))"
    "\<forall>x\<in>set (head_edges tree). \<not> float_isnan (edge_policy env pe out x) \<longrightarrow>
        float_ge (edge_policy env pe out e) (edge_policy env pe out x)"
    "\<forall>x\<in>set post. \<not> float_ge (edge_policy env pe out x) (edge_policy env pe out e)"
    by blast
  have "MakeBestMove env pe tree =
       Some (pe\<lparr>comp_idx := comp_idx pe + 1\<rparr>,
             MakeMove env tree (GetMove env e (IsBlackToMove env (history tree))))"
    using e(2) by (simp add: MakeBestMove_def)
  with e(1,3,4) show ?thesis by blast
qed

text \<open>The theorem on the concrete instance.\<close>

theorem MakeBestMove_takes_last_maximal_witness:
  "comp_idx (toy_batch toy_white) < length (transforms (toy_batch toy_white)) \<and>
   comp_outputs (toy_batch toy_white) = Some (network toy_white [1]) \<and>
   float_ge (edge_policy toy_rules (toy_batch toy_white) (network toy_white [1]) 5) float_lowest \<and>
   edge_policy toy_rules (toy_batch toy_white) (network toy_white [1]) 5 =
     edge_policy toy_rules (toy_batch toy_white) (network toy_white [1]) 7 \<and>
   MakeBestMove toy_rules (toy_batch toy_white) toy_tree =
     Some ((toy_batch toy_white)\<lparr>comp_idx := 1\<rparr>, MakeMove toy_rules toy_tree 7)"
proof -
  let ?pe = "toy_batch toy_white"
  let ?out = "network toy_white [1]"
  have a: "comp_idx ?pe < length (transforms ?pe)" by (simp add: toy_batch_simps)
  have b: "comp_outputs ?pe = Some ?out" by (simp add: toy_batch_simps toy_white_def)
  have c: "float_ge (edge_policy toy_rules ?pe ?out 5) float_lowest"
    by (simp add: toy_policy toy_white_def float_defs)
  have c': "\<exists>e\<in>set (head_edges toy_tree). float_ge (edge_policy toy_rules ?pe ?out e) float_lowest"
    using c by (simp add: toy_tree_def)
  have d: "edge_policy toy_rules ?pe ?out 5 = edge_policy toy_rules ?pe ?out 7"
    by (simp add: toy_policy toy_white_def)
  have r: "MakeBestMove toy_rules ?pe toy_tree =
     Some (?pe\<lparr>comp_idx := 1\<rparr>, MakeMove toy_rules toy_tree 7)"
    using toy_tree_score by (simp add: toy_rules_def toy_tree_def)
  from MakeBestMove_takes_last_maximal[OF a b c']
  obtain e where "MakeBestMove toy_rules ?pe toy_tree =
       Some (?pe\<lparr>comp_idx := comp_idx ?pe + 1\<rparr>,
             MakeMove toy_rules toy_tree
               (GetMove toy_rules e (IsBlackToMove toy_rules (history toy_tree))))"
    by blast
  with a b c d r show ?thesis by simp
qed

text \<open>
  The claim as stated fails when the maximal score is minus infinity: with the two
  candidates 5 and 7 both scored minus infinity, equal and maximal, the move applied is
  the default-constructed move 0, not the later candidate 7.
\<close>

theorem later_tie_not_selected_counterexample:
  "head_edges (toy_tree\<lparr>head_edges := [5, 7]\<rparr>) = [5, 7] \<and>
   edge_score toy_rules (toy_batch toy_minus_inf) 5 = Some 0xFF800000 \<and>
   edge_score toy_rules (toy_batch toy_minus_inf) 7 = Some 0xFF800000 \<and>
   float_ge 0xFF800000 0xFF800000 \<and>
   map_option snd (MakeBestMove toy_rules (toy_batch toy_minus_inf) (toy_tree\<lparr>head_edges := [5, 7]\<rparr>)) =
     Some \<lparr>history = [0], head_edges = []\<rparr> \<and>
   MakeMove toy_rules (toy_tree\<lparr>head_edges := [5, 7]\<rparr>) 7 = \<lparr>history = [7], head_edges = []\<rparr>"
  by (simp add: MakeBestMove_def toy_batch_def toy_tree_def toy_rules_def toy_minus_inf_def Run_def
        Gather_def Reset_def edge_score_def GetPVal_def float_defs)

text \<open>
  C3. Let session \<open>i\<close> be undecided and not terminal, with a tablebase configured, no
  castling rights and a piece count within the tablebase's cardinality, and let the probe
  return a status other than \<open>FAIL\<close>. Then the iteration completes and the result of the
  session is: for a win, \<open>WHITE_WON\<close> at an even ply count and \<open>BLACK_WON\<close> at an odd one; for
  a loss, the opposite; for every other classification, \<open>DRAW\<close>. The probe was called for
  the session, the evaluator was not, and its tree is unchanged.
\<close>

theorem tablebase_probe_resolves:
  assumes wf: "length (results st) = length (trees st)"
      and i: "i < length (trees st)"
      and und: "results st ! i = UNDECIDED"
      and nt: "ComputeGameResult env (history (trees st ! i)) = UNDECIDED"
      and tb: "syzygy_tb st = Some tb"
      and nc: "no_legal_castle env (history (trees st ! i))"
      and pc: "piece_count env (history (trees st ! i)) \<le> max_cardinality tb"
      and pr: "probe_wdl tb (history (trees st ! i)) = (wdl, state)"
      and ok: "state \<noteq> FAIL"
  shows "\<exists>ex st' pe' trace.
     Play_iteration env (st, ev) = Some (ex, (st', pe'), trace) \<and>
     results st' ! i =
       (if wdl = WDL_WIN
        then (if even (GetPlyCount env (history (trees st ! i))) then WHITE_WON else BLACK_WON)
        else if wdl = WDL_LOSS
        then (if even (GetPlyCount env (history (trees st ! i))) then BLACK_WON else WHITE_WON)
        else DRAW) \<and>
     EvProbe i \<in> set trace \<and>
     (\<forall>s. EvGather i s \<notin> set trace \<and> EvMakeBestMove i s \<notin> set trace) \<and>
     trees st' ! i = trees st ! i"
proof -
  let ?V = "if wdl = WDL_WIN
        then (if even (GetPlyCount env (history (trees st ! i))) then WHITE_WON else BLACK_WON)
        else if wdl = WDL_LOSS
        then (if even (GetPlyCount env (history (trees st ! i))) then BLACK_WON else WHITE_WON)
        else DRAW"
  have tr: "tablebase_result env (syzygy_tb st) i (trees st ! i) = (Some ?V, [EvProbe i])"
    using tb nc pc pr ok by (simp add: tablebase_result_def odd_iff_mod_2_eq_one)
  have sr: "scan_all env st ! i = ?V"
    using i und nt tr by (simp add: scan_all_nth scan_result_def)
  have sp: "scan_probes env (syzygy_tb st) i (trees st ! i) (results st ! i) = [EvProbe i]"
    using und nt tr by (simp add: scan_probes_def)
  have dec: "scan_all env st ! i \<noteq> UNDECIDED" unfolding sr by simp
  then have nd: "i \<notin> set (due_list env st)" by (simp add: in_due_list)
  from wf obtain ex st' pe' trace where
    it: "Play_iteration env (st, ev) = Some (ex, (st', pe'), trace)"
    and res: "results st' = scan_all env st"
    and trs: "trees st' = moved_trees env st"
    and pcs: "set (probe_calls env st) \<subseteq> set trace"
    and ge: "gather_events trace = map (\<lambda>(slot, i). (i, slot)) (enumerate 0 (due_list env st))"
    and me: "move_events trace = map (\<lambda>(slot, i). (i, slot)) (enumerate 0 (due_list env st))"
    by (rule Play_iteration_summary)
  have a: "results st' ! i = ?V" using res sr by simp
  have b: "EvProbe i \<in> set trace" using probe_in_calls[OF i sp] pcs by blast
  have c: "\<forall>s. EvGather i s \<notin> set trace \<and> EvMakeBestMove i s \<notin> set trace"
    using gathered_iff_due[OF ge, of i] moved_iff_due[OF me, of i] nd by blast
  have d: "trees st' ! i = trees st ! i"
    using trs nd i by (simp add: moved_trees_nth)
  from it a b c d show ?thesis by blast
qed

text \<open>The theorem on the concrete instance.\<close>

theorem tablebase_probe_resolves_witness:
  "length (results toy_games) = length (trees toy_games) \<and>
   0 < length (trees toy_games) \<and>
   results toy_games ! 0 = UNDECIDED \<and>
   ComputeGameResult toy_rules (history (trees toy_games ! 0)) = UNDECIDED \<and>
   syzygy_tb toy_games = Some toy_tb \<and>
   no_legal_castle toy_rules (history (trees toy_games ! 0)) \<and>
   piece_count toy_rules (history (trees toy_games ! 0)) \<le> max_cardinality toy_tb \<and>
   probe_wdl toy_tb (history (trees toy_games ! 0)) = (WDL_WIN, OK) \<and>
   OK \<noteq> FAIL \<and>
   even (GetPlyCount toy_rules (history (trees toy_games ! 0))) \<and>
   map_option (\<lambda>(ex, (st, pe), tr). results st ! 0)
     (Play_iteration toy_rules (toy_games, Reset toy_white)) = Some WHITE_WON"
proof -
  have wf: "length (results toy_games) = length (trees toy_games)"
    by (simp add: toy_games_simps)
  have i: "0 < length (trees toy_games)" by (simp add: toy_games_simps)
  have und: "results toy_games ! 0 = UNDECIDED" by (simp add: toy_games_simps)
  have nt: "ComputeGameResult toy_rules (history (trees toy_games ! 0)) = UNDECIDED"
    by (simp add: toy_games_history toy_rules_def)
  have tb: "syzygy_tb toy_games = Some toy_tb" by (simp add: toy_games_simps)
  have nc: "no_legal_castle toy_rules (history (trees toy_games ! 0))"
    by (simp add: toy_games_history toy_rules_def)
  have pc: "piece_count toy_rules (history (trees toy_games ! 0)) \<le> max_cardinality toy_tb"
    by (simp add: toy_games_history toy_rules_def toy_tb_def)
  have pr: "probe_wdl toy_tb (history (trees toy_games ! 0)) = (WDL_WIN, OK)"
    by (simp add: toy_games_history toy_tb_def)
  have ok: "OK \<noteq> FAIL" by simp
  have ev: "even (GetPlyCount toy_rules (history (trees toy_games ! 0)))"
    by (simp add: toy_games_history toy_rules_def)
  from tablebase_probe_resolves[OF wf i und nt tb nc pc pr ok, of "Reset toy_white"] ev
  have "map_option (\<lambda>(ex, (st, pe), tr). results st ! 0)
     (Play_iteration toy_rules (toy_games, Reset toy_white)) = Some WHITE_WON"
    by auto
  with wf i und nt tb nc pc pr ok ev show ?thesis by simp
qed

text \<open>
  C4. Under the same conditions, when the probe returns the status \<open>FAIL\<close>: the iteration
  completes and goes on to the evaluator, the result of the session is still
  \<open>UNDECIDED\<close>, and the session is treated as any undecided session is. If it is the first
  undecided one it fixes the due side; if its parity is the due side it is gathered and
  moved, otherwise it is skipped with its tree unchanged.
\<close>

theorem failed_probe_leaves_undecided:
  assumes wf: "length (results st) = length (trees st)"
      and i: "i < length (trees st)"
      and und: "results st ! i = UNDECIDED"
      and nt: "ComputeGameResult env (history (trees st ! i)) = UNDECIDED"
      and tb: "syzygy_tb st = Some tb"
      and nc: "no_legal_castle env (history (trees st ! i))"
      and pc: "piece_count env (history (trees st ! i)) \<le> max_cardinality tb"
      and pr: "probe_wdl tb (history (trees st ! i)) = (wdl, FAIL)"
  shows "\<exists>st' pe' trace idx.
     Play_iteration env (st, ev) = Some (Continue, (st', pe'), trace) \<and>
     results st' ! i = UNDECIDED \<and>
     EvProbe i \<in> set trace \<and>
     reset_events trace = [idx] \<and>
     ((\<forall>l<i. results st' ! l \<noteq> UNDECIDED) \<longrightarrow>
        idx = GetPlyCount env (history (trees st ! i)) mod 2) \<and>
     (if GetPlyCount env (history (trees st ! i)) mod 2 = idx
      then \<exists>s. EvGather i s \<in> set trace \<and> EvMakeBestMove i s \<in> set trace
      else (\<forall>s. EvGather i s \<notin> set trace \<and> EvMakeBestMove i s \<notin> set trace) \<and>
           trees st' ! i = trees st ! i)"
proof -
  have tr: "tablebase_result env (syzygy_tb st) i (trees st ! i) = (None, [EvProbe i])"
    using tb nc pc pr by (simp add: tablebase_result_def)
  have sr: "scan_all env st ! i = UNDECIDED"
    using i und nt tr by (simp add: scan_all_nth scan_result_def)
  have sp: "scan_probes env (syzygy_tb st) i (trees st ! i) (results st ! i) = [EvProbe i]"
    using und nt tr by (simp add: scan_probes_def)
  from wf obtain ex st' pe' trace where
    it: "Play_iteration env (st, ev) = Some (ex, (st', pe'), trace)"
    and res: "results st' = scan_all env st"
    and trs: "trees st' = moved_trees env st"
    and br: "ex = Break \<longleftrightarrow> (\<forall>i<length (trees st). scan_all env st ! i \<noteq> UNDECIDED)"
    and pcs: "set (probe_calls env st) \<subseteq> set trace"
    and ge: "gather_events trace = map (\<lambda>(slot, i). (i, slot)) (enumerate 0 (due_list env st))"
    and me: "move_events trace = map (\<lambda>(slot, i). (i, slot)) (enumerate 0 (due_list env st))"
    and re: "reset_events trace = (if ex = Continue then [if due_side env st then 1 else 0] else [])"
    by (rule Play_iteration_summary)
  let ?idx = "if due_side env st then 1 else 0 :: nat"
  have "ex \<noteq> Break" using br sr i by blast
  then have ex: "ex = Continue" by (cases ex) simp_all
  have a: "results st' ! i = UNDECIDED" using res sr by simp
  have b: "EvProbe i \<in> set trace" using probe_in_calls[OF i sp] pcs by blast
  have r: "reset_events trace = [?idx]" using re ex by simp
  have due: "i \<in> set (due_list env st) \<longleftrightarrow>
             GetPlyCount env (history (trees st ! i)) mod 2 = ?idx"
    using i sr parity_matches[of "GetPlyCount env (history (trees st ! i))" "due_side env st"]
    by (simp add: in_due_list blacks_turn_def)
  have c: "if GetPlyCount env (history (trees st ! i)) mod 2 = ?idx
      then \<exists>s. EvGather i s \<in> set trace \<and> EvMakeBestMove i s \<in> set trace
      else (\<forall>s. EvGather i s \<notin> set trace \<and> EvMakeBestMove i s \<notin> set trace) \<and>
           trees st' ! i = trees st ! i"
  proof (cases "i \<in> set (due_list env st)")
    case True
    then show ?thesis using called_iff_due[OF ge me, of i] due by simp
  next
    case False
    then have "trees st' ! i = trees st ! i" using trs i by (simp add: moved_trees_nth)
    then show ?thesis
      using gathered_iff_due[OF ge, of i] moved_iff_due[OF me, of i] due False by auto
  qed
  have f: "(\<forall>l<i. results st' ! l \<noteq> UNDECIDED) \<longrightarrow>
        ?idx = GetPlyCount env (history (trees st ! i)) mod 2"
  proof
    assume "\<forall>l<i. results st' ! l \<noteq> UNDECIDED"
    then have "due_side env st = blacks_turn env (trees st ! i)"
      using due_side_first[OF i, of env] sr res by simp
    then show "?idx = GetPlyCount env (history (trees st ! i)) mod 2"
      using parity_index[of "GetPlyCount env (history (trees st ! i))"]
      by (simp add: blacks_turn_def)
  qed
  from it[unfolded ex] a b r f c show ?thesis by blast
qed

text \<open>The theorem on the concrete instance.\<close>

theorem failed_probe_leaves_undecided_witness:
  "length (results toy_games) = length (trees toy_games) \<and>
   1 < length (trees toy_games) \<and>
   results toy_games ! 1 = UNDECIDED \<and>
   ComputeGameResult toy_rules (history (trees toy_games ! 1)) = UNDECIDED \<and>
   syzygy_tb toy_games = Some toy_tb \<and>
   no_legal_castle toy_rules (history (trees toy_games ! 1)) \<and>
   piece_count toy_rules (history (trees toy_games ! 1)) \<le> max_cardinality toy_tb \<and>
   probe_wdl toy_tb (history (trees toy_games ! 1)) = (WDL_DRAW, FAIL) \<and>
   map_option (\<lambda>(ex, (st, pe), tr). (ex, results st ! 1, reset_events tr))
     (Play_iteration toy_rules (toy_games, Reset toy_white)) = Some (Continue, UNDECIDED, [1])"
proof -
  have wf: "length (results toy_games) = length (trees toy_games)"
    by (simp add: toy_games_simps)
  have i: "1 < length (trees toy_games)" by (simp add: toy_games_simps)
  have und: "results toy_games ! 1 = UNDECIDED" by (simp add: toy_games_simps)
  have nt: "ComputeGameResult toy_rules (history (trees toy_games ! 1)) = UNDECIDED"
    by (simp add: toy_games_history toy_rules_def)
  have tb: "syzygy_tb toy_games = Some toy_tb" by (simp add: toy_games_simps)
  have nc: "no_legal_castle toy_rules (history (trees toy_games ! 1))"
    by (simp add: toy_games_history toy_rules_def)
  have pc: "piece_count toy_rules (history (trees toy_games ! 1)) \<le> max_cardinality toy_tb"
    by (simp add: toy_games_history toy_rules_def toy_tb_def)
  have pr: "probe_wdl toy_tb (history (trees toy_games ! 1)) = (WDL_DRAW, FAIL)"
    by (simp add: toy_games_history toy_tb_def)
  from failed_probe_leaves_undecided[OF wf i und nt tb nc pc pr, of "Reset toy_white"]
  obtain st' pe' trace idx where
    it: "Play_iteration toy_rules (toy_games, Reset toy_white) = Some (Continue, (st', pe'), trace)"
    and r: "results st' ! 1 = UNDECIDED"
    and re: "reset_events trace = [idx]"
    by blast
  from it toy_iteration[of "Reset toy_white"] have "reset_events trace = [1]" by auto
  with it r have "map_option (\<lambda>(ex, (st, pe), tr). (ex, results st ! 1, reset_events tr))
     (Play_iteration toy_rules (toy_games, Reset toy_white)) = Some (Continue, UNDECIDED, [1])"
    by simp
  with wf i und nt tb nc pc pr show ?thesis by simp
qed

text \<open>
  C5. The constructor gives every session the result \<open>UNDECIDED\<close>, one per opening, with
  as many trees. An iteration of \<open>Play\<close>, and \<open>Play\<close> as a whole when it returns, keeps the
  number of sessions and leaves every result that is not \<open>UNDECIDED\<close> as it is: a result
  changes only from \<open>UNDECIDED\<close>.
\<close>

theorem results_written_once:
  "results (construct env first_player second_player openings tb) = replicate (length openings) UNDECIDED \<and>
   length (trees (construct env first_player second_player openings tb)) = length openings \<and>
   (length (results st) = length (trees st) \<longrightarrow>
      (\<exists>ex st' pe' trace.
         Play_iteration env (st, ev) = Some (ex, (st', pe'), trace) \<and>
         length (results st') = length (trees st') \<and>
         length (trees st') = length (trees st) \<and>
         (\<forall>i<length (trees st). results st ! i \<noteq> UNDECIDED \<longrightarrow>
            results st' ! i = results st ! i))) \<and>
   (length (results st) = length (trees st) \<and>
    Play_loop env abort_calls k (st, ev) calls = Some ((st'', pe''), trace'') \<longrightarrow>
      length (results st'') = length (trees st'') \<and>
      length (trees st'') = length (trees st) \<and>
      (\<forall>i<length (trees st). results st ! i \<noteq> UNDECIDED \<longrightarrow>
         results st'' ! i = results st ! i))"
proof -
  have a: "results (construct env first_player second_player openings tb) =
             replicate (length openings) UNDECIDED"
    "length (trees (construct env first_player second_player openings tb)) = length openings"
    using fold_add_opening[of env openings]
    by (simp_all add: construct_def)
  have b: "length (results st) = length (trees st) \<longrightarrow>
      (\<exists>ex st' pe' trace.
         Play_iteration env (st, ev) = Some (ex, (st', pe'), trace) \<and>
         length (results st') = length (trees st') \<and>
         length (trees st') = length (trees st) \<and>
         (\<forall>i<length (trees st). results st ! i \<noteq> UNDECIDED \<longrightarrow>
            results st' ! i = results st ! i))"
  proof
    assume wf: "length (results st) = length (trees st)"
    then obtain ex st' pe' trace where
      it: "Play_iteration env (st, ev) = Some (ex, (st', pe'), trace)"
      by (rule Play_iteration_summary)
    from iteration_keeps_results[OF wf it] it
    show "\<exists>ex st' pe' trace.
         Play_iteration env (st, ev) = Some (ex, (st', pe'), trace) \<and>
         length (results st') = length (trees st') \<and>
         length (trees st') = length (trees st) \<and>
         (\<forall>i<length (trees st). results st ! i \<noteq> UNDECIDED \<longrightarrow>
            results st' ! i = results st ! i)"
      by blast
  qed
  have c: "length (results st) = length (trees st) \<and>
    Play_loop env abort_calls k (st, ev) calls = Some ((st'', pe''), trace'') \<longrightarrow>
      length (results st'') = length (trees st'') \<and>
      length (trees st'') = length (trees st) \<and>
      (\<forall>i<length (trees st). results st ! i \<noteq> UNDECIDED \<longrightarrow>
         results st'' ! i = results st ! i)"
    using Play_loop_keeps_results[of env abort_calls k "(st, ev)" calls "((st'', pe''), trace'')"]
    by simp
  from a b c show ?thesis by blast
qed

text \<open>The theorem on the concrete instance.\<close>

theorem results_written_once_witness:
  "results (construct toy_rules toy_white toy_black
      [\<lparr>start_fen = ''startpos'', moves = [3, 5]\<rparr>, \<lparr>start_fen = ''startpos'', moves = []\<rparr>] None) =
     [UNDECIDED, UNDECIDED] \<and>
   length (results toy_endgame) = length (trees toy_endgame) \<and>
   results toy_endgame ! 2 = BLACK_WON \<and>
   Play_loop toy_rules (\<lambda>k. False) 0 (toy_endgame, Reset toy_white) [] =
     Some ((toy_endgame\<lparr>results := [DRAW, WHITE_WON, BLACK_WON]\<rparr>, Reset toy_white), [EvProbe 1]) \<and>
   results (toy_endgame\<lparr>results := [DRAW, WHITE_WON, BLACK_WON]\<rparr>) ! 2 = BLACK_WON"
proof -
  have wf: "length (results toy_endgame) = length (trees toy_endgame)"
    by (simp add: toy_endgame_def)
  have r: "results toy_endgame ! 2 = BLACK_WON" by (simp add: toy_endgame_def)
  have n: "2 < length (trees toy_endgame)" by (simp add: toy_endgame_def)
  have p: "Play_loop toy_rules (\<lambda>k. False) 0 (toy_endgame, Reset toy_white) [] =
     Some ((toy_endgame\<lparr>results := [DRAW, WHITE_WON, BLACK_WON]\<rparr>, Reset toy_white), [EvProbe 1])"
    using toy_endgame_Play[of "Reset toy_white"] by (simp add: Play_def)
  note t = results_written_once[where env = toy_rules and first_player = toy_white
      and second_player = toy_black and tb = None and st = toy_endgame and ev = "Reset toy_white"
      and abort_calls = "\<lambda>k. False" and k = 0 and calls = "[]"
      and st'' = "toy_endgame\<lparr>results := [DRAW, WHITE_WON, BLACK_WON]\<rparr>"
      and pe'' = "Reset toy_white" and trace'' = "[EvProbe 1]"
      and openings = "[\<lparr>start_fen = ''startpos'', moves = [3, 5]\<rparr>,
                       \<lparr>start_fen = ''startpos'', moves = []\<rparr>]"]
  from t have "results (construct toy_rules toy_white toy_black
      [\<lparr>start_fen = ''startpos'', moves = [3, 5]\<rparr>, \<lparr>start_fen = ''startpos'', moves = []\<rparr>] None) =
     [UNDECIDED, UNDECIDED]"
    by (simp add: numeral_2_eq_2)
  moreover from t wf p n r
  have "results (toy_endgame\<lparr>results := [DRAW, WHITE_WON, BLACK_WON]\<rparr>) ! 2 = BLACK_WON"
    by simp
  ultimately show ?thesis using wf r p by simp
qed

text \<open>
  C6. In one iteration, every session passed to \<open>Gather\<close> or \<open>MakeBestMove\<close> was undecided
  before the scan and is undecided after it, its position is not terminal, and its ply
  parity is the side the evaluator was reset for. A session that is undecided and whose
  position is terminal gets the terminal result, keeps its tree and is passed to neither.
\<close>

theorem evaluator_sees_only_due_undecided:
  assumes wf: "length (results st) = length (trees st)"
  shows "\<exists>ex st' pe' trace.
     Play_iteration env (st, ev) = Some (ex, (st', pe'), trace) \<and>
     (\<forall>i s. EvGather i s \<in> set trace \<or> EvMakeBestMove i s \<in> set trace \<longrightarrow>
        i < length (trees st) \<and>
        results st ! i = UNDECIDED \<and>
        results st' ! i = UNDECIDED \<and>
        ComputeGameResult env (history (trees st ! i)) = UNDECIDED \<and>
        reset_events trace = [GetPlyCount env (history (trees st ! i)) mod 2]) \<and>
     (\<forall>i<length (trees st).
        results st ! i = UNDECIDED \<and>
        ComputeGameResult env (history (trees st ! i)) \<noteq> UNDECIDED \<longrightarrow>
        results st' ! i = ComputeGameResult env (history (trees st ! i)) \<and>
        trees st' ! i = trees st ! i \<and>
        (\<forall>s. EvGather i s \<notin> set trace \<and> EvMakeBestMove i s \<notin> set trace))"
proof -
  from wf obtain ex st' pe' trace where
    it: "Play_iteration env (st, ev) = Some (ex, (st', pe'), trace)"
    and res: "results st' = scan_all env st"
    and trs: "trees st' = moved_trees env st"
    and br: "ex = Break \<longleftrightarrow> (\<forall>i<length (trees st). scan_all env st ! i \<noteq> UNDECIDED)"
    and ge: "gather_events trace = map (\<lambda>(slot, i). (i, slot)) (enumerate 0 (due_list env st))"
    and me: "move_events trace = map (\<lambda>(slot, i). (i, slot)) (enumerate 0 (due_list env st))"
    and re: "reset_events trace = (if ex = Continue then [if due_side env st then 1 else 0] else [])"
    by (rule Play_iteration_summary)
  have called: "\<And>i s. EvGather i s \<in> set trace \<or> EvMakeBestMove i s \<in> set trace \<Longrightarrow>
                  i \<in> set (due_list env st)"
    using gathered_iff_due[OF ge] moved_iff_due[OF me] by blast
  have a: "\<forall>i s. EvGather i s \<in> set trace \<or> EvMakeBestMove i s \<in> set trace \<longrightarrow>
        i < length (trees st) \<and>
        results st ! i = UNDECIDED \<and>
        results st' ! i = UNDECIDED \<and>
        ComputeGameResult env (history (trees st ! i)) = UNDECIDED \<and>
        reset_events trace = [GetPlyCount env (history (trees st ! i)) mod 2]"
  proof (intro allI impI)
    fix i s
    assume "EvGather i s \<in> set trace \<or> EvMakeBestMove i s \<in> set trace"
    then have "i \<in> set (due_list env st)" by (rule called)
    then have i: "i < length (trees st)" and u: "scan_all env st ! i = UNDECIDED"
      and p: "blacks_turn env (trees st ! i) = due_side env st"
      by (simp_all add: in_due_list)
    from u i have "scan_result env (syzygy_tb st) i (trees st ! i) (results st ! i) = UNDECIDED"
      by (simp add: scan_all_nth)
    from scan_result_undecided[OF this]
    have r: "results st ! i = UNDECIDED"
      and c: "ComputeGameResult env (history (trees st ! i)) = UNDECIDED" by simp_all
    have "ex \<noteq> Break" using br u i by blast
    then have "ex = Continue" by (cases ex) simp_all
    then have "reset_events trace = [if due_side env st then 1 else 0]" using re by simp
    also have "(if due_side env st then 1 else 0) =
               GetPlyCount env (history (trees st ! i)) mod 2"
      using p parity_index[of "GetPlyCount env (history (trees st ! i))"]
      by (simp add: blacks_turn_def)
    finally show "i < length (trees st) \<and>
        results st ! i = UNDECIDED \<and>
        results st' ! i = UNDECIDED \<and>
        ComputeGameResult env (history (trees st ! i)) = UNDECIDED \<and>
        reset_events trace = [GetPlyCount env (history (trees st ! i)) mod 2]"
      using i r c u res by simp
  qed
  have b: "\<forall>i<length (trees st).
        results st ! i = UNDECIDED \<and>
        ComputeGameResult env (history (trees st ! i)) \<noteq> UNDECIDED \<longrightarrow>
        results st' ! i = ComputeGameResult env (history (trees st ! i)) \<and>
        trees st' ! i = trees st ! i \<and>
        (\<forall>s. EvGather i s \<notin> set trace \<and> EvMakeBestMove i s \<notin> set trace)"
  proof (intro allI impI)
    fix i
    assume i: "i < length (trees st)"
      and h: "results st ! i = UNDECIDED \<and>
              ComputeGameResult env (history (trees st ! i)) \<noteq> UNDECIDED"
    then have sr: "scan_all env st ! i = ComputeGameResult env (history (trees st ! i))"
      by (simp add: scan_all_nth scan_result_def)
    with h have nd: "i \<notin> set (due_list env st)" by (simp add: in_due_list)
    have "trees st' ! i = trees st ! i" using trs nd i by (simp add: moved_trees_nth)
    then show "results st' ! i = ComputeGameResult env (history (trees st ! i)) \<and>
        trees st' ! i = trees st ! i \<and>
        (\<forall>s. EvGather i s \<notin> set trace \<and> EvMakeBestMove i s \<notin> set trace)"
      using res sr nd called by auto
  qed
  from it a b show ?thesis by blast
qed

text \<open>The theorem on the concrete instance.\<close>

theorem evaluator_sees_only_due_undecided_witness:
  "length (results toy_games) = length (trees toy_games) \<and>
   map_option (\<lambda>(ex, (st, pe), tr). (gather_events tr, move_events tr, reset_events tr, results st ! 4))
     (Play_iteration toy_rules (toy_games, Reset toy_white)) =
   Some ([(1, 0), (3, 1)], [(1, 0), (3, 1)], [1], DRAW)"
proof -
  have wf: "length (results toy_games) = length (trees toy_games)"
    by (simp add: toy_games_simps)
  from evaluator_sees_only_due_undecided[OF wf, of toy_rules "Reset toy_white"]
  obtain ex st' pe' trace where
    it: "Play_iteration toy_rules (toy_games, Reset toy_white) = Some (ex, (st', pe'), trace)"
    and t: "\<forall>i<length (trees toy_games).
        results toy_games ! i = UNDECIDED \<and>
        ComputeGameResult toy_rules (history (trees toy_games ! i)) \<noteq> UNDECIDED \<longrightarrow>
        results st' ! i = ComputeGameResult toy_rules (history (trees toy_games ! i)) \<and>
        trees st' ! i = trees toy_games ! i \<and>
        (\<forall>s. EvGather i s \<notin> set trace \<and> EvMakeBestMove i s \<notin> set trace)"
    by blast
  have "4 < length (trees toy_games)" "results toy_games ! 4 = UNDECIDED"
    "ComputeGameResult toy_rules (history (trees toy_games ! 4)) = DRAW"
    by (simp_all add: toy_games_simps toy_games_history toy_rules_def)
  with t have "results st' ! 4 = DRAW" by auto
  moreover from it toy_iteration[of "Reset toy_white"]
  have "trace = [EvProbe 0, EvProbe 1, EvReset 1, EvGather 1 0, EvGather 3 1, EvRun,
          EvMakeBestMove 1 0, EvMakeBestMove 3 1]"
    by auto
  ultimately show ?thesis using wf it by simp
qed

text \<open>
  C7. The iteration goes on to the evaluator exactly when some session is undecided after
  the scan. Then, for the first such session \<open>j\<close> in index order, the evaluator is reset
  exactly once, for the side given by the ply parity of \<open>j\<close> (0 for even, 1 for odd), with
  the network and input format of that side's player options; every session undecided
  after the scan is gathered and moved if its parity is that side, and otherwise is
  neither gathered nor moved and keeps its tree.
\<close>

theorem due_side_from_first_undecided:
  assumes wf: "length (results st) = length (trees st)"
  shows "\<exists>ex st' pe' trace.
     Play_iteration env (st, ev) = Some (ex, (st', pe'), trace) \<and>
     (ex = Continue \<longleftrightarrow> (\<exists>i<length (trees st). results st' ! i = UNDECIDED)) \<and>
     (\<forall>j<length (trees st).
        results st' ! j = UNDECIDED \<and> (\<forall>l<j. results st' ! l \<noteq> UNDECIDED) \<longrightarrow>
        ex = Continue \<and>
        reset_events trace = [GetPlyCount env (history (trees st ! j)) mod 2] \<and>
        comp_network pe' =
          network (if GetPlyCount env (history (trees st ! j)) mod 2 = 0
                   then fst (options st) else snd (options st)) \<and>
        input_format pe' =
          capabilities_input_format
            (if GetPlyCount env (history (trees st ! j)) mod 2 = 0
             then fst (options st) else snd (options st)) \<and>
        (\<forall>i<length (trees st). results st' ! i = UNDECIDED \<longrightarrow>
           (if GetPlyCount env (history (trees st ! i)) mod 2 =
               GetPlyCount env (history (trees st ! j)) mod 2
            then \<exists>s. EvGather i s \<in> set trace \<and> EvMakeBestMove i s \<in> set trace
            else (\<forall>s. EvGather i s \<notin> set trace \<and> EvMakeBestMove i s \<notin> set trace) \<and>
                 trees st' ! i = trees st ! i)))"
proof -
  from wf obtain ex st' pe' trace where
    it: "Play_iteration env (st, ev) = Some (ex, (st', pe'), trace)"
    and res: "results st' = scan_all env st"
    and trs: "trees st' = moved_trees env st"
    and br: "ex = Break \<longleftrightarrow> (\<forall>i<length (trees st). scan_all env st ! i \<noteq> UNDECIDED)"
    and ge: "gather_events trace = map (\<lambda>(slot, i). (i, slot)) (enumerate 0 (due_list env st))"
    and me: "move_events trace = map (\<lambda>(slot, i). (i, slot)) (enumerate 0 (due_list env st))"
    and re: "reset_events trace = (if ex = Continue then [if due_side env st then 1 else 0] else [])"
    and pe: "ex = Continue \<longrightarrow> pe' = at_slot (batch env st) (length (due_list env st))"
    by (rule Play_iteration_summary)
  have "\<forall>j<length (trees st).
        results st' ! j = UNDECIDED \<and> (\<forall>l<j. results st' ! l \<noteq> UNDECIDED) \<longrightarrow>
        ex = Continue \<and>
        reset_events trace = [GetPlyCount env (history (trees st ! j)) mod 2] \<and>
        comp_network pe' =
          network (if GetPlyCount env (history (trees st ! j)) mod 2 = 0
                   then fst (options st) else snd (options st)) \<and>
        input_format pe' =
          capabilities_input_format
            (if GetPlyCount env (history (trees st ! j)) mod 2 = 0
             then fst (options st) else snd (options st)) \<and>
        (\<forall>i<length (trees st). results st' ! i = UNDECIDED \<longrightarrow>
           (if GetPlyCount env (history (trees st ! i)) mod 2 =
               GetPlyCount env (history (trees st ! j)) mod 2
            then \<exists>s. EvGather i s \<in> set trace \<and> EvMakeBestMove i s \<in> set trace
            else (\<forall>s. EvGather i s \<notin> set trace \<and> EvMakeBestMove i s \<notin> set trace) \<and>
                 trees st' ! i = trees st ! i))"
  proof (intro allI impI)
    fix j
    assume j: "j < length (trees st)"
      and f: "results st' ! j = UNDECIDED \<and> (\<forall>l<j. results st' ! l \<noteq> UNDECIDED)"
    let ?pj = "GetPlyCount env (history (trees st ! j)) mod 2"
    have ds: "due_side env st = blacks_turn env (trees st ! j)"
      using due_side_first[OF j, of env] f res by simp
    then have idx: "(if due_side env st then 1 else 0) = ?pj"
      using parity_index[of "GetPlyCount env (history (trees st ! j))"]
      by (simp add: blacks_turn_def)
    have "ex \<noteq> Break" using br f j res by auto
    then have ex: "ex = Continue" by (cases ex) simp_all
    have r: "reset_events trace = [?pj]" using re ex idx by simp
    have pl: "due_player env st = (if ?pj = 0 then fst (options st) else snd (options st))"
      using idx by (auto simp: due_player_def split: if_splits)
    have pe': "pe' = at_slot (batch env st) (length (due_list env st))" using pe ex by simp
    have n: "comp_network pe' = network (if ?pj = 0 then fst (options st) else snd (options st))"
      "input_format pe' =
         capabilities_input_format (if ?pj = 0 then fst (options st) else snd (options st))"
      unfolding pe' pl[symmetric] by (simp_all add: at_slot_simps batch_simps)
    have s: "\<forall>i<length (trees st). results st' ! i = UNDECIDED \<longrightarrow>
           (if GetPlyCount env (history (trees st ! i)) mod 2 = ?pj
            then \<exists>s. EvGather i s \<in> set trace \<and> EvMakeBestMove i s \<in> set trace
            else (\<forall>s. EvGather i s \<notin> set trace \<and> EvMakeBestMove i s \<notin> set trace) \<and>
                 trees st' ! i = trees st ! i)"
    proof (intro allI impI)
      fix i
      assume i: "i < length (trees st)" and u: "results st' ! i = UNDECIDED"
      have due: "i \<in> set (due_list env st) \<longleftrightarrow>
             GetPlyCount env (history (trees st ! i)) mod 2 = ?pj"
        using i u res idx
          parity_matches[of "GetPlyCount env (history (trees st ! i))" "due_side env st"]
        by (simp add: in_due_list blacks_turn_def)
      show "if GetPlyCount env (history (trees st ! i)) mod 2 = ?pj
            then \<exists>s. EvGather i s \<in> set trace \<and> EvMakeBestMove i s \<in> set trace
            else (\<forall>s. EvGather i s \<notin> set trace \<and> EvMakeBestMove i s \<notin> set trace) \<and>
                 trees st' ! i = trees st ! i"
      proof (cases "i \<in> set (due_list env st)")
        case True
        then show ?thesis using called_iff_due[OF ge me, of i] due by simp
      next
        case False
        then have "trees st' ! i = trees st ! i" using trs i by (simp add: moved_trees_nth)
        then show ?thesis
          using gathered_iff_due[OF ge, of i] moved_iff_due[OF me, of i] due False by auto
      qed
    qed
    from ex r n s show "ex = Continue \<and>
        reset_events trace = [?pj] \<and>
        comp_network pe' =
          network (if ?pj = 0 then fst (options st) else snd (options st)) \<and>
        input_format pe' =
          capabilities_input_format (if ?pj = 0 then fst (options st) else snd (options st)) \<and>
        (\<forall>i<length (trees st). results st' ! i = UNDECIDED \<longrightarrow>
           (if GetPlyCount env (history (trees st ! i)) mod 2 = ?pj
            then \<exists>s. EvGather i s \<in> set trace \<and> EvMakeBestMove i s \<in> set trace
            else (\<forall>s. EvGather i s \<notin> set trace \<and> EvMakeBestMove i s \<notin> set trace) \<and>
                 trees st' ! i = trees st ! i))"
      by blast
  qed
  moreover have "ex = Continue \<longleftrightarrow> (\<exists>i<length (trees st). results st' ! i = UNDECIDED)"
    using br res by (cases ex) auto
  ultimately show ?thesis using it by blast
qed

text \<open>The theorem on the concrete instance.\<close>

theorem due_side_from_first_undecided_witness:
  "length (results toy_games) = length (trees toy_games) \<and>
   GetPlyCount toy_rules (history (trees toy_games ! 1)) mod 2 = 1 \<and>
   map_option (\<lambda>(ex, (st, pe), tr).
       (ex, take 2 (results st), reset_events tr, input_format pe, trees st ! 2 = trees toy_games ! 2))
     (Play_iteration toy_rules (toy_games, Reset toy_white)) =
   Some (Continue, [WHITE_WON, UNDECIDED], [1], 2, True)"
proof -
  have wf: "length (results toy_games) = length (trees toy_games)"
    by (simp add: toy_games_simps)
  have p: "GetPlyCount toy_rules (history (trees toy_games ! 1)) mod 2 = 1"
    "GetPlyCount toy_rules (history (trees toy_games ! 2)) mod 2 = 0"
    by (simp_all add: toy_games_history toy_rules_def)
  from due_side_from_first_undecided[OF wf, of toy_rules "Reset toy_white"]
  obtain ex st' pe' trace where
    it: "Play_iteration toy_rules (toy_games, Reset toy_white) = Some (ex, (st', pe'), trace)"
    and t: "\<forall>j<length (trees toy_games).
        results st' ! j = UNDECIDED \<and> (\<forall>l<j. results st' ! l \<noteq> UNDECIDED) \<longrightarrow>
        ex = Continue \<and>
        reset_events trace = [GetPlyCount toy_rules (history (trees toy_games ! j)) mod 2] \<and>
        comp_network pe' =
          network (if GetPlyCount toy_rules (history (trees toy_games ! j)) mod 2 = 0
                   then fst (options toy_games) else snd (options toy_games)) \<and>
        input_format pe' =
          capabilities_input_format
            (if GetPlyCount toy_rules (history (trees toy_games ! j)) mod 2 = 0
             then fst (options toy_games) else snd (options toy_games)) \<and>
        (\<forall>i<length (trees toy_games). results st' ! i = UNDECIDED \<longrightarrow>
           (if GetPlyCount toy_rules (history (trees toy_games ! i)) mod 2 =
               GetPlyCount toy_rules (history (trees toy_games ! j)) mod 2
            then \<exists>s. EvGather i s \<in> set trace \<and> EvMakeBestMove i s \<in> set trace
            else (\<forall>s. EvGather i s \<notin> set trace \<and> EvMakeBestMove i s \<notin> set trace) \<and>
                 trees st' ! i = trees toy_games ! i))"
    by blast
  from it toy_iteration[of "Reset toy_white"]
  have rs: "results st' = [WHITE_WON, UNDECIDED, UNDECIDED, UNDECIDED, DRAW, BLACK_WON]"
    by auto
  have first: "results st' ! 1 = UNDECIDED \<and> (\<forall>l<1. results st' ! l \<noteq> UNDECIDED)"
    unfolding rs by simp
  have "(1::nat) < length (trees toy_games)" by (simp add: toy_games_simps)
  with t first have c: "ex = Continue"
    "reset_events trace = [GetPlyCount toy_rules (history (trees toy_games ! 1)) mod 2]"
    "input_format pe' =
          capabilities_input_format
            (if GetPlyCount toy_rules (history (trees toy_games ! 1)) mod 2 = 0
             then fst (options toy_games) else snd (options toy_games))"
    "\<forall>i<length (trees toy_games). results st' ! i = UNDECIDED \<longrightarrow>
           (if GetPlyCount toy_rules (history (trees toy_games ! i)) mod 2 =
               GetPlyCount toy_rules (history (trees toy_games ! 1)) mod 2
            then \<exists>s. EvGather i s \<in> set trace \<and> EvMakeBestMove i s \<in> set trace
            else (\<forall>s. EvGather i s \<notin> set trace \<and> EvMakeBestMove i s \<notin> set trace) \<and>
                 trees st' ! i = trees toy_games ! i)"
    by blast+
  have "(2::nat) < length (trees toy_games)" "results st' ! 2 = UNDECIDED"
    unfolding rs by (simp_all add: toy_games_simps)
  with c(4) p have sk: "trees st' ! 2 = trees toy_games ! 2" by auto
  have f: "input_format pe' = 2"
    using c(3) p by (simp add: toy_games_simps toy_black_def)
  show ?thesis using wf p(1) it c(1,2) rs sk f by simp
qed

text \<open>
  C8. When the flag is set at an iteration boundary, because it was set before or because
  \<open>Abort\<close> was called since the last read, the loop of \<open>Play\<close> returns there: the state is
  the one it had, with the flag set, results and trees untouched, and no call is added to
  the trace. At the first boundary this is \<open>Play\<close> returning at once with no call made; on
  games just constructed and then aborted, every result is still \<open>UNDECIDED\<close>.
\<close>

theorem Play_stops_at_abort:
  assumes "abort st \<or> abort_calls k"
  shows "Play_loop env abort_calls k (st, pe) trace = Some ((st\<lparr>abort := True\<rparr>, pe), trace) \<and>
         results (st\<lparr>abort := True\<rparr>) = results st \<and> trees (st\<lparr>abort := True\<rparr>) = trees st \<and>
         (k = 0 \<longrightarrow> Play env abort_calls pe st = Some ((st\<lparr>abort := True\<rparr>, pe), [])) \<and>
         Play env abort_calls pe (Abort (construct env first_player second_player openings tb)) =
           Some ((Abort (construct env first_player second_player openings tb), pe), []) \<and>
         results (Abort (construct env first_player second_player openings tb)) =
           replicate (length openings) UNDECIDED"
proof -
  have eq: "abort st \<Longrightarrow> st\<lparr>abort := True\<rparr> = st" by simp
  have a: "\<And>tr. Play_loop env abort_calls k (st, pe) tr = Some ((st\<lparr>abort := True\<rparr>, pe), tr)"
    using assms eq by (subst Play_loop.simps) (auto simp: Abort_def)
  let ?new = "Abort (construct env first_player second_player openings tb)"
  have b: "Play env abort_calls pe ?new = Some ((?new, pe), [])"
    unfolding Play_def by (subst Play_loop.simps) (simp add: Abort_def)
  have c: "results ?new = replicate (length openings) UNDECIDED"
    using fold_add_opening[of env openings] by (simp add: Abort_def construct_def)
  from a b c show ?thesis by (auto simp: Play_def)
qed

text \<open>The theorem on the concrete instance.\<close>

theorem Play_stops_at_abort_witness:
  "abort (toy_games\<lparr>abort := True\<rparr>) \<and>
   Play toy_rules (\<lambda>k. False) (Reset toy_white) (toy_games\<lparr>abort := True\<rparr>) =
     Some ((toy_games\<lparr>abort := True\<rparr>, Reset toy_white), []) \<and>
   Play toy_rules (\<lambda>k. k = 0) (Reset toy_white) toy_games =
     Some ((toy_games\<lparr>abort := True\<rparr>, Reset toy_white), [])"
proof -
  have a: "abort (toy_games\<lparr>abort := True\<rparr>) \<or> (\<lambda>k. False) (0::nat)" by simp
  have b: "abort toy_games \<or> (\<lambda>k. k = 0) (0::nat)" by simp
  from Play_stops_at_abort[where st = "toy_games\<lparr>abort := True\<rparr>" and abort_calls = "\<lambda>k. False"
         and k = 0 and env = toy_rules and pe = "Reset toy_white" and trace = "[]", OF a]
       Play_stops_at_abort[where st = toy_games and abort_calls = "\<lambda>k. k = 0"
         and k = 0 and env = toy_rules and pe = "Reset toy_white" and trace = "[]", OF b]
  show ?thesis by simp
qed

text \<open>
  C9, as amended. A call of \<open>MakeBestMove\<close> (with the cursor inside the transform log and
  the batch computed, unless the candidate list is empty) returns, advances the cursor by
  one and applies exactly one move. When some candidate has a score that compares \<open>>=\<close>
  with \<open>lowest()\<close>, the move applied is the move of a listed candidate, the last one that
  attains the maximal score. Otherwise, that is for an empty candidate list or when every
  score is a NaN or minus infinity, the default-constructed move is applied.
\<close>

theorem MakeBestMove_applies_candidate_or_default:
  assumes "head_edges tree \<noteq> [] \<Longrightarrow>
           comp_idx pe < length (transforms pe) \<and> comp_outputs pe = Some out"
  shows "\<exists>best.
     MakeBestMove env pe tree =
       Some (pe\<lparr>comp_idx := comp_idx pe + 1\<rparr>, MakeMove env tree best) \<and>
     (if \<exists>e\<in>set (head_edges tree). float_ge (edge_policy env pe out e) float_lowest
      then \<exists>pre e post.
             head_edges tree = pre @ e # post \<and>
             best = GetMove env e (IsBlackToMove env (history tree)) \<and>
             (\<forall>x\<in>set (head_edges tree).
                \<not> float_isnan (edge_policy env pe out x) \<longrightarrow>
                float_ge (edge_policy env pe out e) (edge_policy env pe out x)) \<and>
             (\<forall>x\<in>set post. \<not> float_ge (edge_policy env pe out x) (edge_policy env pe out e))
      else best = default_Move env)"
proof (cases "\<exists>e\<in>set (head_edges tree). float_ge (edge_policy env pe out e) float_lowest")
  case True
  then have ne: "head_edges tree \<noteq> []" by auto
  have sc: "\<And>e. edge_score env pe e = Some (edge_policy env pe out e)"
    using assms[OF ne] by (simp add: edge_score_Some)
  from best_loop_some_ge[where sc = "edge_policy env pe out", OF sc float_lowest_not_nan True,
         of "history tree" "default_Move env"]
  obtain pre e post where
    e: "head_edges tree = pre @ e # post"
    "best_loop env pe (history tree) (head_edges tree) (float_lowest, default_Move env) =
       Some (edge_policy env pe out e, GetMove env e (IsBlackToMove env (history tree)))"
    "\<forall>x\<in>set (head_edges tree). \<not> float_isnan (edge_policy env pe out x) \<longrightarrow>
        float_ge (edge_policy env pe out e) (edge_policy env pe out x)"
    "\<forall>x\<in>set post. \<not> float_ge (edge_policy env pe out x) (edge_policy env pe out e)"
    by blast
  have mk: "MakeBestMove env pe tree =
       Some (pe\<lparr>comp_idx := comp_idx pe + 1\<rparr>,
             MakeMove env tree (GetMove env e (IsBlackToMove env (history tree))))"
    using e(2) by (simp add: MakeBestMove_def)
  show ?thesis
  proof (intro exI conjI)
    show "MakeBestMove env pe tree =
       Some (pe\<lparr>comp_idx := comp_idx pe + 1\<rparr>,
             MakeMove env tree (GetMove env e (IsBlackToMove env (history tree))))"
      by (rule mk)
    show "if \<exists>e\<in>set (head_edges tree). float_ge (edge_policy env pe out e) float_lowest
      then \<exists>pre ea post.
             head_edges tree = pre @ ea # post \<and>
             GetMove env e (IsBlackToMove env (history tree)) =
               GetMove env ea (IsBlackToMove env (history tree)) \<and>
             (\<forall>x\<in>set (head_edges tree).
                \<not> float_isnan (edge_policy env pe out x) \<longrightarrow>
                float_ge (edge_policy env pe out ea) (edge_policy env pe out x)) \<and>
             (\<forall>x\<in>set post. \<not> float_ge (edge_policy env pe out x) (edge_policy env pe out ea))
      else GetMove env e (IsBlackToMove env (history tree)) = default_Move env"
      unfolding if_P[OF True] using e(1,3,4) by blast
  qed
next
  case False
  have "best_loop env pe (history tree) (head_edges tree) (float_lowest, default_Move env) =
          Some (float_lowest, default_Move env)"
  proof (cases "head_edges tree = []")
    case True
    then show ?thesis by simp
  next
    case ne: False
    have sc: "\<And>e. edge_score env pe e = Some (edge_policy env pe out e)"
      using assms[OF ne] by (simp add: edge_score_Some)
    show ?thesis
      using best_loop_none_ge[where sc = "edge_policy env pe out", OF sc] False by blast
  qed
  then have mk: "MakeBestMove env pe tree =
       Some (pe\<lparr>comp_idx := comp_idx pe + 1\<rparr>, MakeMove env tree (default_Move env))"
    by (simp add: MakeBestMove_def)
  show ?thesis
    by (rule exI[of _ "default_Move env"]) (simp only: mk if_not_P[OF False] simp_thms)
qed

text \<open>The theorem on the concrete instance.\<close>

theorem MakeBestMove_applies_candidate_or_default_witness:
  "comp_idx (toy_batch toy_white) < length (transforms (toy_batch toy_white)) \<and>
   comp_outputs (toy_batch toy_white) = Some (network toy_white [1]) \<and>
   float_ge (edge_policy toy_rules (toy_batch toy_white) (network toy_white [1]) 7) float_lowest \<and>
   map_option snd (MakeBestMove toy_rules (toy_batch toy_white) toy_tree) =
     Some (MakeMove toy_rules toy_tree 7) \<and>
   map_option snd (MakeBestMove toy_rules (toy_batch toy_white) (toy_tree\<lparr>head_edges := []\<rparr>)) =
     Some (MakeMove toy_rules (toy_tree\<lparr>head_edges := []\<rparr>) (default_Move toy_rules))"
proof -
  let ?pe = "toy_batch toy_white"
  let ?out = "network toy_white [1]"
  have a: "comp_idx ?pe < length (transforms ?pe)" by (simp add: toy_batch_simps)
  have b: "comp_outputs ?pe = Some ?out" by (simp add: toy_batch_simps toy_white_def)
  have c: "float_ge (edge_policy toy_rules ?pe ?out 7) float_lowest"
    by (simp add: toy_policy toy_white_def float_defs)
  have r: "map_option snd (MakeBestMove toy_rules ?pe toy_tree) = Some (MakeMove toy_rules toy_tree 7)"
    using toy_tree_score by (simp add: toy_rules_def toy_tree_def)
  have h: "head_edges (toy_tree\<lparr>head_edges := []\<rparr>) \<noteq> [] \<Longrightarrow>
        comp_idx ?pe < length (transforms ?pe) \<and> comp_outputs ?pe = Some ?out"
    by simp
  from MakeBestMove_applies_candidate_or_default[where tree = "toy_tree\<lparr>head_edges := []\<rparr>"
         and pe = ?pe and out = ?out and env = toy_rules, OF h]
  have "map_option snd (MakeBestMove toy_rules ?pe (toy_tree\<lparr>head_edges := []\<rparr>)) =
     Some (MakeMove toy_rules (toy_tree\<lparr>head_edges := []\<rparr>) (default_Move toy_rules))"
    by auto
  moreover have h': "head_edges toy_tree \<noteq> [] \<Longrightarrow>
        comp_idx ?pe < length (transforms ?pe) \<and> comp_outputs ?pe = Some ?out"
    using a b by simp
  from MakeBestMove_applies_candidate_or_default[where tree = toy_tree
         and pe = ?pe and out = ?out and env = toy_rules, OF h']
  have "\<exists>best. MakeBestMove toy_rules ?pe toy_tree =
          Some (?pe\<lparr>comp_idx := comp_idx ?pe + 1\<rparr>, MakeMove toy_rules toy_tree best)"
    by blast
  ultimately show ?thesis using a b c r by simp
qed

text \<open>
  The claim as stated fails on a non-empty candidate list whose scores are all NaN: the
  move applied is the default-constructed move 0, which is the move of none of the
  candidates 3, 5 and 7.
\<close>

theorem NaN_scores_apply_default_counterexample:
  "head_edges toy_tree = [3, 5, 7] \<and>
   edge_score toy_rules (toy_batch toy_nan) 3 = Some 0x7FC00000 \<and>
   edge_score toy_rules (toy_batch toy_nan) 5 = Some 0x7FC00000 \<and>
   edge_score toy_rules (toy_batch toy_nan) 7 = Some 0x7FC00000 \<and>
   float_isnan 0x7FC00000 \<and>
   map_option snd (MakeBestMove toy_rules (toy_batch toy_nan) toy_tree) =
     Some (MakeMove toy_rules toy_tree (default_Move toy_rules)) \<and>
   default_Move toy_rules \<noteq> GetMove toy_rules 3 (IsBlackToMove toy_rules (history toy_tree)) \<and>
   default_Move toy_rules \<noteq> GetMove toy_rules 5 (IsBlackToMove toy_rules (history toy_tree)) \<and>
   default_Move toy_rules \<noteq> GetMove toy_rules 7 (IsBlackToMove toy_rules (history toy_tree)) \<and>
   MakeMove toy_rules toy_tree (default_Move toy_rules) = \<lparr>history = [0], head_edges = []\<rparr>"
  by (simp add: MakeBestMove_def toy_batch_def toy_tree_def toy_rules_def toy_nan_def Run_def
        Gather_def Reset_def edge_score_def GetPVal_def float_defs)

text \<open>
  C10. \<open>Abort\<close> sets the flag and changes nothing else: results, trees, player options and
  tablebase are as before, and calling it again, any number of times, gives the same state.
\<close>

theorem Abort_sets_only_the_flag:
  "abort (Abort st) \<and> results (Abort st) = results st \<and> trees (Abort st) = trees st \<and>
   options (Abort st) = options st \<and> syzygy_tb (Abort st) = syzygy_tb st \<and>
   Abort st = st\<lparr>abort := True\<rparr> \<and> Abort (Abort st) = Abort st \<and>
   (Abort ^^ Suc n) st = Abort st"
proof -
  have "(Abort ^^ Suc n) st = Abort st"
    by (induction n) (simp_all add: Abort_def)
  then show ?thesis by (simp add: Abort_def)
qed

end
